theory Spec2Isabelle
  imports Main "HOL-Library.Word" "HOL-Library.Multiset"
begin

section \<open>Data model (internal/models/types.go)\<close>

text \<open>
  Go's \<open>int\<close> is a two's complement machine integer whose addition wraps around; it is
  modelled as a 64-bit word. A \<open>time.Time\<close> is an integer time stamp. Strings are byte
  lists.
\<close>

type_synonym goint = "64 word"
type_synonym gotime = int

section \<open>The GitHub API binding (go-github), as far as the client reads it\<close>

text \<open>
  The binding is an external library. Every field of its structs is a pointer that may
  be nil, and its getters return the zero value for a nil receiver or a nil field. Only
  the fields read by internal/client/github.go are kept.
\<close>

record github_CommitStats =
  Additions :: "goint option"
  Deletions :: "goint option"
  Total :: "goint option"

record github_CommitAuthor =
  Date :: "gotime option"
  Name :: "string option"
  Email :: "string option"

record github_Commit =
  Author :: "github_CommitAuthor option"
  Message :: "string option"

record github_User =
  Login :: "string option"

record github_RepositoryCommit =
  SHA :: "string option"
  Commit :: "github_Commit option"
  Author :: "github_User option"
  Stats :: "github_CommitStats option"

record github_Branch =
  Name :: "string option"
  Commit :: "github_RepositoryCommit option"

text \<open>A getter returning a value, and a getter returning a pointer.\<close>

definition getValue :: "'a \<Rightarrow> ('r \<Rightarrow> 'a option) \<Rightarrow> 'r option \<Rightarrow> 'a" where
  "getValue zero field p =
     (case p of None \<Rightarrow> zero | Some r \<Rightarrow> (case field r of None \<Rightarrow> zero | Some v \<Rightarrow> v))"

definition getPointer :: "('r \<Rightarrow> 's option) \<Rightarrow> 'r option \<Rightarrow> 's option" where
  "getPointer field p = (case p of None \<Rightarrow> None | Some r \<Rightarrow> field r)"

text \<open>
  Errors: those returned by the API binding, and those built with \<open>fmt.Errorf\<close> in the
  client, in processRepository and in the worker.
\<close>

datatype error =
    APIError string
  | FailedToListBranches string string error
  | FailedToListCommits string string string error
  | InvalidRepositoryNameFormat string
  | RepositoryError string error

text \<open>
  The calls of the binding that the client makes. A call is a function of its arguments;
  a paginated call takes the page number and answers the items of the page and the
  number of the next page (0 after the last page). A cancelled context makes calls
  fail, which is an error answer.
\<close>

record GitHubAPI =
  Repositories_ListBranches :: "string \<Rightarrow> string \<Rightarrow> goint \<Rightarrow> error + (github_Branch list \<times> goint)"
  Repositories_ListCommits ::
    "string \<Rightarrow> string \<Rightarrow> string \<Rightarrow> gotime \<Rightarrow> gotime \<Rightarrow> goint \<Rightarrow> error + (github_RepositoryCommit list \<times> goint)"
  Repositories_GetCommit :: "string \<Rightarrow> string \<Rightarrow> string \<Rightarrow> error + github_RepositoryCommit"

section \<open>The records of the report\<close>

record CommitStats =
  Additions :: goint
  Deletions :: goint
  Total :: goint

record Author =
  Name :: string
  Email :: string
  Login :: string

record Commit =
  SHA :: string
  Message :: string
  Author :: Author
  Date :: gotime
  Stats :: CommitStats

record Branch =
  Name :: string
  SHA :: string
  Commits :: "Commit list"

record Repository =
  Name :: string
  FullName :: string
  URL :: string
  DefaultBranch :: string
  Branches :: "Branch list"

record RepositoryStats =
  Commits :: goint
  Additions :: goint
  Deletions :: goint

record ContributorStats =
  Name :: string
  Email :: string
  Login :: string
  TotalCommits :: goint
  TotalAdditions :: goint
  TotalDeletions :: goint
  Repositories :: "string \<rightharpoonup> RepositoryStats"

section \<open>Author key (reporter: getAuthorKey)\<close>

definition getAuthorKey :: "Author \<Rightarrow> string" where
  "getAuthorKey author =
     (if Author.Login author \<noteq> [] then Author.Login author
      else if Author.Email author \<noteq> [] then Author.Email author
      else Author.Name author)"

section \<open>Branch selection (reporter: selectBranchesToProcess)\<close>

text \<open>
  \<open>branchMap\<close> is a Go \<open>map[string]bool\<close>: reading a missing key gives \<open>false\<close>.
\<close>

definition lookupBool :: "(string \<rightharpoonup> bool) \<Rightarrow> string \<Rightarrow> bool" where
  "lookupBool m k = (case m k of None \<Rightarrow> False | Some v \<Rightarrow> v)"

text \<open>
  The inner loop \<open>for _, branch := range branches { if branch.Name == n { append; mark;
  break } }\<close> on the state \<open>(selected, branchMap)\<close>.
\<close>

fun appendFirstNamed ::
  "string \<Rightarrow> Branch list \<Rightarrow> Branch list \<times> (string \<rightharpoonup> bool) \<Rightarrow> Branch list \<times> (string \<rightharpoonup> bool)" where
  "appendFirstNamed n [] st = st"
| "appendFirstNamed n (branch # rest) (selected, branchMap) =
     (if Branch.Name branch = n
      then (selected @ [branch], branchMap(Branch.Name branch \<mapsto> True))
      else appendFirstNamed n rest (selected, branchMap))"

definition importantBranches :: "string list" where
  "importantBranches = [''main'', ''master'', ''develop'', ''dev'', ''staging'', ''production'']"

text \<open>The outer loop over the important names.\<close>

fun addImportant ::
  "string list \<Rightarrow> Branch list \<Rightarrow> Branch list \<times> (string \<rightharpoonup> bool) \<Rightarrow> Branch list \<times> (string \<rightharpoonup> bool)" where
  "addImportant [] branches st = st"
| "addImportant (importantBranch # rest) branches (selected, branchMap) =
     addImportant rest branches
       (if \<not> lookupBool branchMap importantBranch
        then appendFirstNamed importantBranch branches (selected, branchMap)
        else (selected, branchMap))"

definition selectBranchesToProcess :: "Branch list \<Rightarrow> string \<Rightarrow> Branch list" where
  "selectBranchesToProcess branches defaultBranch =
     fst (addImportant importantBranches branches
            (appendFirstNamed defaultBranch branches ([], Map.empty)))"

text \<open>
  The selection policy in the words of the specification: the first branch named like
  the default branch, then, for each priority name not already included, the first
  branch of that name, in priority order.
\<close>

definition firstNamed :: "Branch list \<Rightarrow> string \<Rightarrow> Branch list" where
  "firstNamed branches n =
     (case find (\<lambda>b. Branch.Name b = n) branches of None \<Rightarrow> [] | Some b \<Rightarrow> [b])"

definition select_spec :: "Branch list \<Rightarrow> string \<Rightarrow> Branch list" where
  "select_spec branches defaultBranch =
     firstNamed branches defaultBranch @
     concat (map (\<lambda>n. if n \<in> set (map Branch.Name (firstNamed branches defaultBranch))
                       then [] else firstNamed branches n)
                 importantBranches)"

section \<open>The client (internal/client/github.go)\<close>

text \<open>What \<open>log.Printf\<close> writes, one constructor per format string.\<close>

datatype logEntry =
    ProcessingRepository string
  | CommitsWarning string string error
  | BranchCommits string nat
  | DetailedCommitWarning string error

text \<open>
  The pagination loop \<open>for { items, resp, err := fetch(opt); if err != nil { return nil,
  err }; all = append(all, items...); if resp.NextPage == 0 { break }; opt.Page =
  resp.NextPage }\<close>. It runs as long as the binding names a next page; \<open>None\<close> is the
  loop that never ends.
\<close>

partial_function (option) fetchAllPages ::
  "(goint \<Rightarrow> error + ('a list \<times> goint)) \<Rightarrow> goint \<Rightarrow> 'a list \<Rightarrow> (error + 'a list) option" where
  "fetchAllPages fetch page allItems =
     (case fetch page of
        Inl err \<Rightarrow> Some (Inl err)
      | Inr (items, nextPage) \<Rightarrow>
          if nextPage = 0 then Some (Inr (allItems @ items))
          else fetchAllPages fetch nextPage (allItems @ items))"

definition ListBranches :: "GitHubAPI \<Rightarrow> string \<Rightarrow> string \<Rightarrow> (error + Branch list) option" where
  "ListBranches api owner repo =
     (case fetchAllPages (Repositories_ListBranches api owner repo) 0 [] of
        None \<Rightarrow> None
      | Some (Inl err) \<Rightarrow> Some (Inl (FailedToListBranches owner repo err))
      | Some (Inr allBranches) \<Rightarrow>
          Some (Inr (map (\<lambda>branch.
                 \<lparr>Branch.Name = getValue [] github_Branch.Name (Some branch),
                  SHA = getValue [] github_RepositoryCommit.SHA
                          (getPointer github_Branch.Commit (Some branch)),
                  Commits = []\<rparr>) allBranches)))"

text \<open>The author of a listed commit: name and email of the git author, login of the user.\<close>

definition commitAuthor :: "github_RepositoryCommit \<Rightarrow> Author" where
  "commitAuthor commit =
     (let author =
        \<lparr>Author.Name = getValue [] github_CommitAuthor.Name
            (getPointer github_Commit.Author (getPointer github_RepositoryCommit.Commit (Some commit))),
         Email = getValue [] github_CommitAuthor.Email
            (getPointer github_Commit.Author (getPointer github_RepositoryCommit.Commit (Some commit))),
         Login = []\<rparr>
      in if getPointer github_RepositoryCommit.Author (Some commit) \<noteq> None
         then author\<lparr>Author.Login :=
                getValue [] github_User.Login (getPointer github_RepositoryCommit.Author (Some commit))\<rparr>
         else author)"

text \<open>
  The record built for a listed commit from its detailed version: the three statistics
  are read from the detailed commit, each with its own getter.
\<close>

definition toCommit :: "github_RepositoryCommit \<Rightarrow> github_RepositoryCommit \<Rightarrow> Commit" where
  "toCommit commit detailedCommit =
     \<lparr>Commit.SHA = getValue [] github_RepositoryCommit.SHA (Some commit),
      Message = getValue [] github_Commit.Message (getPointer github_RepositoryCommit.Commit (Some commit)),
      Author = commitAuthor commit,
      Date = getValue 0 github_CommitAuthor.Date
        (getPointer github_Commit.Author (getPointer github_RepositoryCommit.Commit (Some commit))),
      Stats =
        \<lparr>CommitStats.Additions = getValue 0 github_CommitStats.Additions
            (getPointer github_RepositoryCommit.Stats (Some detailedCommit)),
         Deletions = getValue 0 github_CommitStats.Deletions
            (getPointer github_RepositoryCommit.Stats (Some detailedCommit)),
         Total = getValue 0 github_CommitStats.Total
            (getPointer github_RepositoryCommit.Stats (Some detailedCommit))\<rparr>\<rparr>"

text \<open>
  The second loop of ListCommits, on the state \<open>(result, log)\<close>: a commit whose details
  cannot be fetched is logged and skipped.
\<close>

fun detailCommits ::
  "(string \<Rightarrow> error + github_RepositoryCommit) \<Rightarrow> github_RepositoryCommit list \<Rightarrow>
   Commit list \<times> logEntry list \<Rightarrow> Commit list \<times> logEntry list" where
  "detailCommits getCommit [] st = st"
| "detailCommits getCommit (commit # rest) (result, logged) =
     (case getCommit (getValue [] github_RepositoryCommit.SHA (Some commit)) of
        Inl err \<Rightarrow>
          detailCommits getCommit rest
            (result,
             logged @ [DetailedCommitWarning (getValue [] github_RepositoryCommit.SHA (Some commit)) err])
      | Inr detailedCommit \<Rightarrow>
          detailCommits getCommit rest (result @ [toCommit commit detailedCommit], logged))"

definition ListCommits ::
  "GitHubAPI \<Rightarrow> string \<Rightarrow> string \<Rightarrow> string \<Rightarrow> gotime \<Rightarrow> gotime \<Rightarrow>
   ((error + Commit list) \<times> logEntry list) option" where
  "ListCommits api owner repo branch since until =
     (case fetchAllPages (Repositories_ListCommits api owner repo branch since until) 0 [] of
        None \<Rightarrow> None
      | Some (Inl err) \<Rightarrow> Some (Inl (FailedToListCommits owner repo branch err), [])
      | Some (Inr allCommits) \<Rightarrow>
          (case detailCommits (Repositories_GetCommit api owner repo) allCommits ([], []) of
             (result, logged) \<Rightarrow> Some (Inr result, logged)))"

section \<open>Processing one repository (reporter: processRepository)\<close>

text \<open>\<open>strings.Split\<close> with a separator of one byte: the segments between the separators.\<close>

fun strings_Split :: "string \<Rightarrow> char \<Rightarrow> string list" where
  "strings_Split [] sep = [[]]"
| "strings_Split (c # cs) sep =
     (if c = sep then [] # strings_Split cs sep
      else (case strings_Split cs sep of
              [] \<Rightarrow> [[c]]
            | segment # segments \<Rightarrow> (c # segment) # segments))"

text \<open>
  The loop over the selected branches, on the state \<open>(processedBranches, log)\<close>. The
  result is \<open>None\<close> when a call of the client does not return.
\<close>

fun processBranches ::
  "(string \<Rightarrow> ((error + Commit list) \<times> logEntry list) option) \<Rightarrow> string \<Rightarrow> Branch list \<Rightarrow>
   Branch list \<times> logEntry list \<Rightarrow> (Branch list \<times> logEntry list) option" where
  "processBranches listCommits fullName [] st = Some st"
| "processBranches listCommits fullName (branch # rest) (processedBranches, logged) =
     (case listCommits (Branch.Name branch) of
        None \<Rightarrow> None
      | Some (Inl err, clientLog) \<Rightarrow>
          processBranches listCommits fullName rest
            (processedBranches,
             logged @ clientLog @ [CommitsWarning fullName (Branch.Name branch) err])
      | Some (Inr commits, clientLog) \<Rightarrow>
          processBranches listCommits fullName rest
            (processedBranches @ [branch\<lparr>Branch.Commits := commits\<rparr>],
             logged @ clientLog @ [BranchCommits (Branch.Name branch) (length commits)]))"

definition processRepository ::
  "GitHubAPI \<Rightarrow> Repository \<Rightarrow> gotime \<Rightarrow> gotime \<Rightarrow> ((error + Repository) \<times> logEntry list) option" where
  "processRepository api repo since until =
     (case strings_Split (FullName repo) (CHR ''/'') of
        [owner, repoName] \<Rightarrow>
          (case ListBranches api owner repoName of
             None \<Rightarrow> None
           | Some (Inl err) \<Rightarrow> Some (Inl err, [ProcessingRepository (FullName repo)])
           | Some (Inr branches) \<Rightarrow>
               (case processBranches (\<lambda>branch. ListCommits api owner repoName branch since until)
                       (FullName repo)
                       (selectBranchesToProcess branches (DefaultBranch repo))
                       ([], [ProcessingRepository (FullName repo)]) of
                  None \<Rightarrow> None
                | Some (processedBranches, logged) \<Rightarrow>
                    Some (Inr (repo\<lparr>Branches := processedBranches\<rparr>), logged)))
      | _ \<Rightarrow>
          Some (Inl (InvalidRepositoryNameFormat (FullName repo)),
                [ProcessingRepository (FullName repo)]))"

subsection \<open>Notions used in the statements about processRepository\<close>

text \<open>
  What one selected branch contributes to the processed branches and to the log, given
  the answers of the client.
\<close>

definition fetchedBranch ::
  "(string \<Rightarrow> ((error + Commit list) \<times> logEntry list) option) \<Rightarrow> Branch \<Rightarrow> Branch list" where
  "fetchedBranch listCommits branch =
     (case listCommits (Branch.Name branch) of
        Some (Inr commits, clientLog) \<Rightarrow> [branch\<lparr>Branch.Commits := commits\<rparr>]
      | _ \<Rightarrow> [])"

definition branchLog ::
  "(string \<Rightarrow> ((error + Commit list) \<times> logEntry list) option) \<Rightarrow> string \<Rightarrow> Branch \<Rightarrow> logEntry list" where
  "branchLog listCommits fullName branch =
     (case listCommits (Branch.Name branch) of
        None \<Rightarrow> []
      | Some (Inl err, clientLog) \<Rightarrow> clientLog @ [CommitsWarning fullName (Branch.Name branch) err]
      | Some (Inr commits, clientLog) \<Rightarrow> clientLog @ [BranchCommits (Branch.Name branch) (length commits)])"

section \<open>Aggregation (reporter: generateSummary)\<close>

text \<open>
  \<open>stats.Repositories[repo.FullName]\<close> reads a Go map: a missing key gives the zero
  value of \<open>RepositoryStats\<close>.
\<close>

definition lookupRepositoryStats :: "(string \<rightharpoonup> RepositoryStats) \<Rightarrow> string \<Rightarrow> RepositoryStats" where
  "lookupRepositoryStats m k =
     (case m k of None \<Rightarrow> \<lparr>Commits = 0, Additions = 0, Deletions = 0\<rparr> | Some v \<Rightarrow> v)"

text \<open>
  The body of the innermost loop, for one commit of the repository \<open>repoFullName\<close>. Each
  contributor's \<open>Repositories\<close> map is created by its own \<open>make\<close>, so no two entries of
  the summary share a map and the in-place update is the update of this entry.
\<close>

definition addCommit ::
  "string \<Rightarrow> Commit \<Rightarrow> (string \<rightharpoonup> ContributorStats) \<Rightarrow> (string \<rightharpoonup> ContributorStats)" where
  "addCommit repoFullName commit summary =
     (let authorKey = getAuthorKey (Author commit);
          stats = (case summary authorKey of
                     Some found \<Rightarrow> found
                   | None \<Rightarrow>
                       \<lparr>ContributorStats.Name = Author.Name (Author commit),
                        Email = Author.Email (Author commit),
                        Login = Author.Login (Author commit),
                        TotalCommits = 0, TotalAdditions = 0, TotalDeletions = 0,
                        Repositories = Map.empty\<rparr>);
          stats = stats\<lparr>TotalCommits := TotalCommits stats + 1,
                         TotalAdditions := TotalAdditions stats + CommitStats.Additions (Stats commit),
                         TotalDeletions := TotalDeletions stats + CommitStats.Deletions (Stats commit)\<rparr>;
          repoStats = lookupRepositoryStats (Repositories stats) repoFullName;
          repoStats = repoStats\<lparr>Commits := RepositoryStats.Commits repoStats + 1,
                                 Additions := RepositoryStats.Additions repoStats + CommitStats.Additions (Stats commit),
                                 Deletions := RepositoryStats.Deletions repoStats + CommitStats.Deletions (Stats commit)\<rparr>;
          stats = stats\<lparr>Repositories := (Repositories stats)(repoFullName \<mapsto> repoStats)\<rparr>
      in summary(authorKey \<mapsto> stats))"

text \<open>The three nested \<open>range\<close> loops, starting from the empty summary.\<close>

definition generateSummary :: "Repository list \<Rightarrow> (string \<rightharpoonup> ContributorStats)" where
  "generateSummary repos =
     fold (\<lambda>repo. fold (\<lambda>branch. fold (\<lambda>commit. addCommit (FullName repo) commit)
                                        (Branch.Commits branch))
                        (Branches repo))
          repos Map.empty"

text \<open>
  The order in which the loops visit the commits: the sequence of pairs of a repository's
  full name and a commit.
\<close>

definition traversal :: "Repository list \<Rightarrow> (string \<times> Commit) list" where
  "traversal repos =
     concat (map (\<lambda>repo. concat (map (\<lambda>branch. map (Pair (FullName repo)) (Branch.Commits branch))
                                        (Branches repo)))
                 repos)"

subsection \<open>Notions used in the statements and proofs about the aggregation\<close>

definition sumOver :: "(RepositoryStats \<Rightarrow> goint) \<Rightarrow> (string \<rightharpoonup> RepositoryStats) \<Rightarrow> goint" where
  "sumOver f m = (\<Sum>r \<in> dom m. f (the (m r)))"

definition consistent :: "ContributorStats \<Rightarrow> bool" where
  "consistent stats \<longleftrightarrow>
     finite (dom (Repositories stats)) \<and>
     TotalCommits stats = sumOver RepositoryStats.Commits (Repositories stats) \<and>
     TotalAdditions stats = sumOver RepositoryStats.Additions (Repositories stats) \<and>
     TotalDeletions stats = sumOver RepositoryStats.Deletions (Repositories stats)"

definition seedStats :: "Commit \<Rightarrow> ContributorStats" where
  "seedStats commit =
     \<lparr>ContributorStats.Name = Author.Name (Author commit),
      Email = Author.Email (Author commit),
      Login = Author.Login (Author commit),
      TotalCommits = 0, TotalAdditions = 0, TotalDeletions = 0,
      Repositories = Map.empty\<rparr>"

definition countCommit :: "string \<Rightarrow> Commit \<Rightarrow> ContributorStats \<Rightarrow> ContributorStats" where
  "countCommit n c stats =
     stats\<lparr>TotalCommits := TotalCommits stats + 1,
           TotalAdditions := TotalAdditions stats + CommitStats.Additions (Stats c),
           TotalDeletions := TotalDeletions stats + CommitStats.Deletions (Stats c),
           Repositories := (Repositories stats)(n \<mapsto>
             \<lparr>Commits = RepositoryStats.Commits (lookupRepositoryStats (Repositories stats) n) + 1,
              Additions = RepositoryStats.Additions (lookupRepositoryStats (Repositories stats) n)
                          + CommitStats.Additions (Stats c),
              Deletions = RepositoryStats.Deletions (lookupRepositoryStats (Repositories stats) n)
                          + CommitStats.Deletions (Stats c)\<rparr>)\<rparr>"

definition forgetIdentity :: "ContributorStats \<Rightarrow> ContributorStats" where
  "forgetIdentity stats = stats\<lparr>ContributorStats.Name := [], Email := [], Login := []\<rparr>"

definition addForget :: "string \<times> Commit \<Rightarrow> (string \<rightharpoonup> ContributorStats) \<Rightarrow> (string \<rightharpoonup> ContributorStats)" where
  "addForget x s = map_option forgetIdentity \<circ> addCommit (fst x) (snd x) s"

text \<open>Commits with the same author key carry the same Author record.\<close>

definition sameAuthorPerKey :: "(string \<times> Commit) list \<Rightarrow> bool" where
  "sameAuthorPerKey t \<longleftrightarrow>
     (\<forall>x \<in> set t. \<forall>y \<in> set t.
        getAuthorKey (Author (snd x)) = getAuthorKey (Author (snd y)) \<longrightarrow> Author (snd x) = Author (snd y))"

section \<open>The fetch coordinator (reporter: GenerateReport, processRepositoryWorker)\<close>

text \<open>
  The goroutines of GenerateReport after the repositories are listed: the sender, the
  workers (processRepositoryWorker), the closer (\<open>wg.Wait\<close>, then the two \<open>close\<close>) and
  the collecting loop of GenerateReport itself. They interleave, so the coordinator is a
  step relation on the shared state, one rule per channel operation.

  A worker is about to receive from \<open>reposChan\<close>, is inside processRepository, is about
  to send its result or its error, or has left its \<open>range\<close> loop and called \<open>wg.Done\<close>.
\<close>

datatype worker =
    Receiving
  | Processing Repository
  | SendingResult Repository
  | SendingError error
  | Finished

text \<open>
  A channel is its buffer (a queue) and its closed flag. \<open>capacity\<close> is the capacity
  \<open>len(repos)\<close> of the three channels, \<open>toSend\<close> what the sender has still to send.
  \<open>resultsChanNil\<close> and \<open>errorsChanNil\<close> say that the collecting loop has set its
  variable to \<open>nil\<close>; \<open>processedRepos\<close> and \<open>errors\<close> are its two slices.
\<close>

record coordinator =
  capacity :: nat
  toSend :: "Repository list"
  reposChan :: "Repository list"
  reposChanClosed :: bool
  workers :: "worker list"
  resultsChan :: "Repository list"
  resultsChanClosed :: bool
  errorsChan :: "error list"
  errorsChanClosed :: bool
  resultsChanNil :: bool
  errorsChanNil :: bool
  processedRepos :: "Repository list"
  errors :: "error list"
  logOutput :: "logEntry list"

definition maxWorkers :: nat where
  "maxWorkers = 10"

text \<open>
  The state after the goroutines are started: \<open>min(maxWorkers, len(repos))\<close> workers,
  empty channels.
\<close>

definition startCoordinator :: "Repository list \<Rightarrow> coordinator" where
  "startCoordinator repos =
     \<lparr>capacity = length repos,
      toSend = repos,
      reposChan = [],
      reposChanClosed = False,
      workers = replicate (min maxWorkers (length repos)) Receiving,
      resultsChan = [],
      resultsChanClosed = False,
      errorsChan = [],
      errorsChanClosed = False,
      resultsChanNil = False,
      errorsChanNil = False,
      processedRepos = [],
      errors = [],
      logOutput = []\<rparr>"

text \<open>
  The steps. A send needs room in the buffer; a receive takes the head of the buffer; a
  receive from a closed and empty channel ends a worker's loop (workerDone) or sets the
  collector's variable to nil (resultsDrained, errorsDrained). The closer closes
  \<open>resultsChan\<close> when every worker has finished, then \<open>errorsChan\<close>. A worker turns the
  answer of processRepository into a result to send, or into the error
  \<open>fmt.Errorf("repository %s: %w", repo.FullName, err)\<close> to send; a call that never
  returns gives no step.
\<close>

inductive coordinatorStep :: "GitHubAPI \<Rightarrow> gotime \<Rightarrow> gotime \<Rightarrow> coordinator \<Rightarrow> coordinator \<Rightarrow> bool"
  for api :: GitHubAPI and since :: gotime and until :: gotime where
  send:
    "toSend s = repo # rest \<Longrightarrow> length (reposChan s) < capacity s \<Longrightarrow>
     coordinatorStep api since until s (s\<lparr>toSend := rest, reposChan := reposChan s @ [repo]\<rparr>)"
| closeRepos:
    "toSend s = [] \<Longrightarrow> \<not> reposChanClosed s \<Longrightarrow>
     coordinatorStep api since until s (s\<lparr>reposChanClosed := True\<rparr>)"
| receive:
    "i < length (workers s) \<Longrightarrow> workers s ! i = Receiving \<Longrightarrow> reposChan s = repo # rest \<Longrightarrow>
     coordinatorStep api since until s
       (s\<lparr>reposChan := rest, workers := (workers s)[i := Processing repo]\<rparr>)"
| processed:
    "i < length (workers s) \<Longrightarrow> workers s ! i = Processing repo \<Longrightarrow>
     processRepository api repo since until = Some (Inr processedRepo, entries) \<Longrightarrow>
     coordinatorStep api since until s
       (s\<lparr>workers := (workers s)[i := SendingResult processedRepo], logOutput := logOutput s @ entries\<rparr>)"
| failed:
    "i < length (workers s) \<Longrightarrow> workers s ! i = Processing repo \<Longrightarrow>
     processRepository api repo since until = Some (Inl err, entries) \<Longrightarrow>
     coordinatorStep api since until s
       (s\<lparr>workers := (workers s)[i := SendingError (RepositoryError (FullName repo) err)],
          logOutput := logOutput s @ entries\<rparr>)"
| sendResult:
    "i < length (workers s) \<Longrightarrow> workers s ! i = SendingResult processedRepo \<Longrightarrow>
     length (resultsChan s) < capacity s \<Longrightarrow>
     coordinatorStep api since until s
       (s\<lparr>workers := (workers s)[i := Receiving], resultsChan := resultsChan s @ [processedRepo]\<rparr>)"
| sendError:
    "i < length (workers s) \<Longrightarrow> workers s ! i = SendingError err \<Longrightarrow>
     length (errorsChan s) < capacity s \<Longrightarrow>
     coordinatorStep api since until s
       (s\<lparr>workers := (workers s)[i := Receiving], errorsChan := errorsChan s @ [err]\<rparr>)"
| workerDone:
    "i < length (workers s) \<Longrightarrow> workers s ! i = Receiving \<Longrightarrow>
     reposChan s = [] \<Longrightarrow> reposChanClosed s \<Longrightarrow>
     coordinatorStep api since until s (s\<lparr>workers := (workers s)[i := Finished]\<rparr>)"
| closeResults:
    "\<forall>w \<in> set (workers s). w = Finished \<Longrightarrow> \<not> resultsChanClosed s \<Longrightarrow>
     coordinatorStep api since until s (s\<lparr>resultsChanClosed := True\<rparr>)"
| closeErrors:
    "resultsChanClosed s \<Longrightarrow> \<not> errorsChanClosed s \<Longrightarrow>
     coordinatorStep api since until s (s\<lparr>errorsChanClosed := True\<rparr>)"
| collectResult:
    "\<not> resultsChanNil s \<Longrightarrow> resultsChan s = repo # rest \<Longrightarrow>
     coordinatorStep api since until s
       (s\<lparr>resultsChan := rest, processedRepos := processedRepos s @ [repo]\<rparr>)"
| resultsDrained:
    "\<not> resultsChanNil s \<Longrightarrow> resultsChan s = [] \<Longrightarrow> resultsChanClosed s \<Longrightarrow>
     coordinatorStep api since until s (s\<lparr>resultsChanNil := True\<rparr>)"
| collectError:
    "\<not> errorsChanNil s \<Longrightarrow> errorsChan s = err # rest \<Longrightarrow>
     coordinatorStep api since until s
       (s\<lparr>errorsChan := rest, errors := errors s @ [err]\<rparr>)"
| errorsDrained:
    "\<not> errorsChanNil s \<Longrightarrow> errorsChan s = [] \<Longrightarrow> errorsChanClosed s \<Longrightarrow>
     coordinatorStep api since until s (s\<lparr>errorsChanNil := True\<rparr>)"

text \<open>The collecting loop ends: \<open>done = resultsChan == nil && errorsChan == nil\<close>.\<close>

definition collectionDone :: "coordinator \<Rightarrow> bool" where
  "collectionDone s \<longleftrightarrow> resultsChanNil s \<and> errorsChanNil s"

subsection \<open>Notions used in the statements and proofs about the coordinator\<close>

text \<open>
  What a worker sends for a repository; the outcomes that are still under way in a
  worker; all outcomes of a state, under way or collected; the invariant.
\<close>

definition workerOutcome ::
  "GitHubAPI \<Rightarrow> gotime \<Rightarrow> gotime \<Rightarrow> Repository \<Rightarrow> (error + Repository) option" where
  "workerOutcome api since until repo =
     (case processRepository api repo since until of
        None \<Rightarrow> None
      | Some (Inl err, entries) \<Rightarrow> Some (Inl (RepositoryError (FullName repo) err))
      | Some (Inr processedRepo, entries) \<Rightarrow> Some (Inr processedRepo))"

definition pendingOutcome ::
  "GitHubAPI \<Rightarrow> gotime \<Rightarrow> gotime \<Rightarrow> worker \<Rightarrow> (error + Repository) option multiset" where
  "pendingOutcome api since until w =
     (case w of
        Processing repo \<Rightarrow> {#workerOutcome api since until repo#}
      | SendingResult processedRepo \<Rightarrow> {#Some (Inr processedRepo)#}
      | SendingError err \<Rightarrow> {#Some (Inl err)#}
      | _ \<Rightarrow> {#})"

definition outcomes ::
  "GitHubAPI \<Rightarrow> gotime \<Rightarrow> gotime \<Rightarrow> coordinator \<Rightarrow> (error + Repository) option multiset" where
  "outcomes api since until s =
     image_mset (workerOutcome api since until) (mset (toSend s) + mset (reposChan s)) +
     sum_list (map (pendingOutcome api since until) (workers s)) +
     image_mset (\<lambda>r. Some (Inr r)) (mset (resultsChan s) + mset (processedRepos s)) +
     image_mset (\<lambda>e. Some (Inl e)) (mset (errorsChan s) + mset (errors s))"

definition coordinatorInv ::
  "GitHubAPI \<Rightarrow> gotime \<Rightarrow> gotime \<Rightarrow> Repository list \<Rightarrow> coordinator \<Rightarrow> bool" where
  "coordinatorInv api since until repos s \<longleftrightarrow>
     capacity s = length repos \<and>
     outcomes api since until s = image_mset (workerOutcome api since until) (mset repos) \<and>
     set (toSend s) \<union> set (reposChan s) \<subseteq> set repos \<and>
     (\<forall>repo. Processing repo \<in> set (workers s) \<longrightarrow> repo \<in> set repos) \<and>
     (reposChanClosed s \<longrightarrow> toSend s = []) \<and>
     ((\<forall>w \<in> set (workers s). w = Finished) \<longrightarrow> toSend s = [] \<and> reposChan s = []) \<and>
     (\<forall>w \<in> set (workers s). w = Finished \<longrightarrow> reposChanClosed s) \<and>
     (resultsChanClosed s \<longrightarrow> (\<forall>w \<in> set (workers s). w = Finished)) \<and>
     (errorsChanClosed s \<longrightarrow> resultsChanClosed s) \<and>
     (resultsChanNil s \<longrightarrow> resultsChanClosed s \<and> resultsChan s = []) \<and>
     (errorsChanNil s \<longrightarrow> errorsChanClosed s \<and> errorsChan s = [])"

text \<open>A measure that every step decreases.\<close>

definition workerWeight :: "worker \<Rightarrow> nat" where
  "workerWeight w =
     (case w of
        Receiving \<Rightarrow> 1
      | Processing repo \<Rightarrow> 5
      | SendingResult processedRepo \<Rightarrow> 4
      | SendingError err \<Rightarrow> 4
      | Finished \<Rightarrow> 0)"

definition coordinatorMeasure :: "coordinator \<Rightarrow> nat" where
  "coordinatorMeasure s =
     6 * length (toSend s) + 5 * length (reposChan s) + sum_list (map workerWeight (workers s)) +
     length (resultsChan s) + length (errorsChan s) +
     (if reposChanClosed s then 0 else 1) + (if resultsChanClosed s then 0 else 1) +
     (if errorsChanClosed s then 0 else 1) + (if resultsChanNil s then 0 else 1) +
     (if errorsChanNil s then 0 else 1)"

section \<open>Properties of the author key\<close>

text \<open>
  C3: the author key is a total function of the Author record: the login when it is not
  empty, otherwise the email when it is not empty, otherwise the display name.
\<close>

theorem getAuthorKey_priority:
  "(Author.Login a \<noteq> [] \<longrightarrow> getAuthorKey a = Author.Login a) \<and>
   (Author.Login a = [] \<and> Author.Email a \<noteq> [] \<longrightarrow> getAuthorKey a = Author.Email a) \<and>
   (Author.Login a = [] \<and> Author.Email a = [] \<longrightarrow> getAuthorKey a = Author.Name a)"
  by (simp add: getAuthorKey_def)

theorem getAuthorKey_priority_witness:
  "getAuthorKey \<lparr>Author.Name = ''z'', Email = ''y'', Login = ''x''\<rparr> = ''x'' \<and>
   getAuthorKey \<lparr>Author.Name = ''z'', Email = ''y'', Login = ''''\<rparr> = ''y'' \<and>
   getAuthorKey \<lparr>Author.Name = ''z'', Email = '''', Login = ''''\<rparr> = ''z''"
  using getAuthorKey_priority [of "\<lparr>Author.Name = ''z'', Email = ''y'', Login = ''x''\<rparr>"]
    getAuthorKey_priority [of "\<lparr>Author.Name = ''z'', Email = ''y'', Login = ''''\<rparr>"]
    getAuthorKey_priority [of "\<lparr>Author.Name = ''z'', Email = '''', Login = ''''\<rparr>"]
  by simp

section \<open>Properties of the branch selection\<close>

subsection \<open>The loops in closed form\<close>

lemma appendFirstNamed_eq:
  "appendFirstNamed n bs (sel, bm) =
     (sel @ firstNamed bs n, if firstNamed bs n = [] then bm else bm(n \<mapsto> True))"
  by (induction bs) (auto simp: firstNamed_def)

lemma firstNamed_names: "map Branch.Name (firstNamed bs n) = (if firstNamed bs n = [] then [] else [n])"
  by (induction bs) (auto simp: firstNamed_def)

lemma addImportant_eq:
  "distinct ns \<Longrightarrow>
   fst (addImportant ns bs (sel, bm)) =
     sel @ concat (map (\<lambda>n. if lookupBool bm n then [] else firstNamed bs n) ns)"
proof (induction ns arbitrary: sel bm)
  case Nil
  then show ?case by simp
next
  case (Cons n ns)
  from Cons.prems have d: "distinct ns" and nin: "n \<notin> set ns" by simp_all
  have keep: "map (\<lambda>m. if lookupBool (bm(n \<mapsto> True)) m then [] else firstNamed bs m) ns =
              map (\<lambda>m. if lookupBool bm m then [] else firstNamed bs m) ns"
    using nin by (intro map_cong) (auto simp: lookupBool_def)
  show ?case
  proof (cases "lookupBool bm n")
    case True
    then show ?thesis using Cons.IH [OF d, of sel bm] by simp
  next
    case False
    show ?thesis
    proof (cases "firstNamed bs n = []")
      case True
      then show ?thesis using False Cons.IH [OF d, of sel bm]
        by (simp add: appendFirstNamed_eq)
    next
      case nonempty: False
      have "fst (addImportant (n # ns) bs (sel, bm)) =
            fst (addImportant ns bs (sel @ firstNamed bs n, bm(n \<mapsto> True)))"
        using False nonempty by (simp add: appendFirstNamed_eq)
      also have "\<dots> = (sel @ firstNamed bs n) @
            concat (map (\<lambda>m. if lookupBool (bm(n \<mapsto> True)) m then [] else firstNamed bs m) ns)"
        by (rule Cons.IH [OF d])
      also have "\<dots> = (sel @ firstNamed bs n) @
            concat (map (\<lambda>m. if lookupBool bm m then [] else firstNamed bs m) ns)"
        by (simp only: keep)
      finally show ?thesis using False by simp
    qed
  qed
qed

lemma select_closed_form: "selectBranchesToProcess bs d = select_spec bs d"
proof -
  have dist: "distinct importantBranches" by (simp add: importantBranches_def)
  let ?bm = "if firstNamed bs d = [] then Map.empty else [d \<mapsto> True]"
  have same: "map (\<lambda>n. if lookupBool ?bm n then [] else firstNamed bs n) importantBranches =
        map (\<lambda>n. if n \<in> set (map Branch.Name (firstNamed bs d)) then [] else firstNamed bs n)
            importantBranches"
    by (intro map_cong) (auto simp: lookupBool_def firstNamed_names)
  have "selectBranchesToProcess bs d =
        fst (addImportant importantBranches bs ([] @ firstNamed bs d, ?bm))"
    unfolding selectBranchesToProcess_def by (simp only: appendFirstNamed_eq)
  also have "\<dots> = ([] @ firstNamed bs d) @
        concat (map (\<lambda>n. if lookupBool ?bm n then [] else firstNamed bs n) importantBranches)"
    by (rule addImportant_eq [OF dist])
  also have "\<dots> = select_spec bs d"
    unfolding select_spec_def by (simp only: same append_Nil)
  finally show ?thesis .
qed


lemma firstNamed_length: "length (firstNamed bs n) \<le> Suc 0"
  by (simp add: firstNamed_def split: option.split)

lemma firstNamed_subset: "set (firstNamed bs n) \<subseteq> set bs"
  by (induction bs) (auto simp: firstNamed_def)

lemma firstNamed_empty_iff: "firstNamed bs n = [] \<longleftrightarrow> n \<notin> Branch.Name ` set bs"
  by (induction bs) (auto simp: firstNamed_def)

lemma length_concat_le:
  "(\<And>n. length (f n) \<le> Suc 0) \<Longrightarrow> length (concat (map f ns)) \<le> length ns"
proof (induction ns)
  case Nil
  then show ?case by simp
next
  case (Cons a ns)
  have "length (f a) \<le> Suc 0" by (rule Cons.prems)
  with Cons.IH [OF Cons.prems] show ?case by simp
qed

lemma names_priority_part:
  "map Branch.Name (concat (map (\<lambda>n. if n \<in> S then [] else firstNamed bs n) ns)) =
   filter (\<lambda>n. n \<notin> S \<and> firstNamed bs n \<noteq> []) ns"
  by (induction ns) (simp_all add: firstNamed_names)

lemma select_spec_names:
  "map Branch.Name (select_spec bs d) =
     (if firstNamed bs d = [] then [] else [d]) @
     filter (\<lambda>n. n \<notin> set (map Branch.Name (firstNamed bs d)) \<and> firstNamed bs n \<noteq> [])
       importantBranches"
  unfolding select_spec_def by (simp only: map_append names_priority_part firstNamed_names)

lemma select_spec_length: "length (select_spec bs d) \<le> 7"
proof -
  have "length (concat (map (\<lambda>n. if n \<in> set (map Branch.Name (firstNamed bs d))
                       then [] else firstNamed bs n) importantBranches)) \<le> length importantBranches"
    by (rule length_concat_le) (simp add: firstNamed_length)
  moreover have "length importantBranches = 6" by (simp add: importantBranches_def)
  moreover have "length (firstNamed bs d) \<le> Suc 0" by (rule firstNamed_length)
  ultimately show ?thesis unfolding select_spec_def by simp
qed

lemma select_spec_distinct: "distinct (map Branch.Name (select_spec bs d))"
proof -
  have "distinct importantBranches" by (simp add: importantBranches_def)
  then show ?thesis
    by (simp add: select_spec_names firstNamed_names)
qed

lemma select_spec_subset: "set (select_spec bs d) \<subseteq> set bs"
  using firstNamed_subset [of bs] unfolding select_spec_def by auto

lemma select_spec_names_allowed:
  "b \<in> set (select_spec bs d) \<Longrightarrow> Branch.Name b = d \<or> Branch.Name b \<in> set importantBranches"
proof -
  assume "b \<in> set (select_spec bs d)"
  then have "Branch.Name b \<in> set (map Branch.Name (select_spec bs d))" by simp
  then show ?thesis unfolding select_spec_names by (auto split: if_splits)
qed

lemma select_spec_none:
  "\<forall>b\<in>set bs. Branch.Name b \<noteq> d \<and> Branch.Name b \<notin> set importantBranches \<Longrightarrow> select_spec bs d = []"
proof -
  assume a: "\<forall>b\<in>set bs. Branch.Name b \<noteq> d \<and> Branch.Name b \<notin> set importantBranches"
  then have "firstNamed bs d = []" by (auto simp: firstNamed_empty_iff)
  moreover have "\<And>n. n \<in> set importantBranches \<Longrightarrow> firstNamed bs n = []"
    using a by (auto simp: firstNamed_empty_iff)
  ultimately show ?thesis unfolding select_spec_def by simp
qed

subsection \<open>The selection policy\<close>

text \<open>
  C4: the selector returns the first branch named like the default branch (if there is
  one), followed, for each name of the priority list main, master, develop, dev, staging,
  production that is not already included, by the first input branch of that name, in
  priority order. Every selected branch carries the default name or a priority name,
  and when no input branch has such a name the result is the empty list, returned as an
  ordinary value.
\<close>

theorem selectBranchesToProcess_policy:
  "selectBranchesToProcess branches d = select_spec branches d \<and>
   (\<forall>b \<in> set (selectBranchesToProcess branches d).
      Branch.Name b = d \<or> Branch.Name b \<in> set importantBranches) \<and>
   ((\<forall>b \<in> set branches. Branch.Name b \<noteq> d \<and> Branch.Name b \<notin> set importantBranches) \<longrightarrow>
      selectBranchesToProcess branches d = [])"
  using select_spec_names_allowed [of _ branches d] select_spec_none [of branches d]
  by (simp add: select_closed_form)

theorem selectBranchesToProcess_policy_witness:
  "selectBranchesToProcess
     [\<lparr>Branch.Name = ''trunk'', SHA = ''a1'', Commits = []\<rparr>,
      \<lparr>Branch.Name = ''dev'', SHA = ''b2'', Commits = []\<rparr>,
      \<lparr>Branch.Name = ''topic'', SHA = ''c3'', Commits = []\<rparr>,
      \<lparr>Branch.Name = ''main'', SHA = ''d4'', Commits = []\<rparr>,
      \<lparr>Branch.Name = ''dev'', SHA = ''e5'', Commits = []\<rparr>] ''trunk'' =
     [\<lparr>Branch.Name = ''trunk'', SHA = ''a1'', Commits = []\<rparr>,
      \<lparr>Branch.Name = ''main'', SHA = ''d4'', Commits = []\<rparr>,
      \<lparr>Branch.Name = ''dev'', SHA = ''b2'', Commits = []\<rparr>] \<and>
   selectBranchesToProcess [\<lparr>Branch.Name = ''topic'', SHA = ''c3'', Commits = []\<rparr>] ''trunk'' = []"
  using selectBranchesToProcess_policy
     [of "[\<lparr>Branch.Name = ''trunk'', SHA = ''a1'', Commits = []\<rparr>,
      \<lparr>Branch.Name = ''dev'', SHA = ''b2'', Commits = []\<rparr>,
      \<lparr>Branch.Name = ''topic'', SHA = ''c3'', Commits = []\<rparr>,
      \<lparr>Branch.Name = ''main'', SHA = ''d4'', Commits = []\<rparr>,
      \<lparr>Branch.Name = ''dev'', SHA = ''e5'', Commits = []\<rparr>]" "''trunk''"]
    selectBranchesToProcess_policy
     [of "[\<lparr>Branch.Name = ''topic'', SHA = ''c3'', Commits = []\<rparr>]" "''trunk''"]
  by (simp add: select_spec_def firstNamed_def importantBranches_def)

text \<open>
  C10: the selection has at most seven branches, their names are pairwise distinct, and
  each selected branch is one of the input branches.
\<close>

theorem selectBranchesToProcess_bounds:
  "length (selectBranchesToProcess branches d) \<le> 7 \<and>
   distinct (map Branch.Name (selectBranchesToProcess branches d)) \<and>
   set (selectBranchesToProcess branches d) \<subseteq> set branches"
  by (simp only: select_closed_form select_spec_length select_spec_distinct select_spec_subset)

theorem selectBranchesToProcess_bounds_witness:
  "length (selectBranchesToProcess
     [\<lparr>Branch.Name = ''main'', SHA = ''a1'', Commits = []\<rparr>,
      \<lparr>Branch.Name = ''main'', SHA = ''b2'', Commits = []\<rparr>] ''main'') \<le> 7 \<and>
   selectBranchesToProcess
     [\<lparr>Branch.Name = ''main'', SHA = ''a1'', Commits = []\<rparr>,
      \<lparr>Branch.Name = ''main'', SHA = ''b2'', Commits = []\<rparr>] ''main'' =
     [\<lparr>Branch.Name = ''main'', SHA = ''a1'', Commits = []\<rparr>]"
  using selectBranchesToProcess_bounds
     [of "[\<lparr>Branch.Name = ''main'', SHA = ''a1'', Commits = []\<rparr>,
      \<lparr>Branch.Name = ''main'', SHA = ''b2'', Commits = []\<rparr>]" "''main''"]
  by (simp add: selectBranchesToProcess_def importantBranches_def lookupBool_def)

text \<open>
  C5, as the code has it: for branches named feature/x, main, develop, master, feature/y
  (in this order) and the default branch main, the selection is main, master, develop:
  the default branch first, then the priority list's order, in which master precedes
  develop.
\<close>

theorem selectBranchesToProcess_scenario:
  assumes "map Branch.Name branches = [''feature/x'', ''main'', ''develop'', ''master'', ''feature/y'']"
  shows "selectBranchesToProcess branches ''main'' = [branches ! 1, branches ! 3, branches ! 2]"
proof -
  from assms obtain b0 b1 b2 b3 b4 where bs: "branches = [b0, b1, b2, b3, b4]"
    and n: "Branch.Name b0 = ''feature/x''" "Branch.Name b1 = ''main''" "Branch.Name b2 = ''develop''"
       "Branch.Name b3 = ''master''" "Branch.Name b4 = ''feature/y''"
    by (auto simp: map_eq_Cons_conv)
  show ?thesis
    unfolding bs selectBranchesToProcess_def importantBranches_def
    by (simp add: n lookupBool_def)
qed

theorem selectBranchesToProcess_scenario_witness:
  "selectBranchesToProcess
     [\<lparr>Branch.Name = ''feature/x'', SHA = [], Commits = []\<rparr>,
      \<lparr>Branch.Name = ''main'', SHA = [], Commits = []\<rparr>,
      \<lparr>Branch.Name = ''develop'', SHA = [], Commits = []\<rparr>,
      \<lparr>Branch.Name = ''master'', SHA = [], Commits = []\<rparr>,
      \<lparr>Branch.Name = ''feature/y'', SHA = [], Commits = []\<rparr>] ''main'' =
     [\<lparr>Branch.Name = ''main'', SHA = [], Commits = []\<rparr>,
      \<lparr>Branch.Name = ''master'', SHA = [], Commits = []\<rparr>,
      \<lparr>Branch.Name = ''develop'', SHA = [], Commits = []\<rparr>]"
  using selectBranchesToProcess_scenario
     [of "[\<lparr>Branch.Name = ''feature/x'', SHA = [], Commits = []\<rparr>,
      \<lparr>Branch.Name = ''main'', SHA = [], Commits = []\<rparr>,
      \<lparr>Branch.Name = ''develop'', SHA = [], Commits = []\<rparr>,
      \<lparr>Branch.Name = ''master'', SHA = [], Commits = []\<rparr>,
      \<lparr>Branch.Name = ''feature/y'', SHA = [], Commits = []\<rparr>]"]
  by simp

text \<open>
  The order main, develop, master stated for this scenario is not the one returned.
\<close>

theorem selectBranchesToProcess_scenario_counterexample:
  "selectBranchesToProcess
     [\<lparr>Branch.Name = ''feature/x'', SHA = [], Commits = []\<rparr>,
      \<lparr>Branch.Name = ''main'', SHA = [], Commits = []\<rparr>,
      \<lparr>Branch.Name = ''develop'', SHA = [], Commits = []\<rparr>,
      \<lparr>Branch.Name = ''master'', SHA = [], Commits = []\<rparr>,
      \<lparr>Branch.Name = ''feature/y'', SHA = [], Commits = []\<rparr>] ''main'' \<noteq>
     [\<lparr>Branch.Name = ''main'', SHA = [], Commits = []\<rparr>,
      \<lparr>Branch.Name = ''develop'', SHA = [], Commits = []\<rparr>,
      \<lparr>Branch.Name = ''master'', SHA = [], Commits = []\<rparr>]"
  by (simp add: selectBranchesToProcess_def importantBranches_def lookupBool_def)

section \<open>Properties of the aggregation\<close>

subsection \<open>Totals against the per-repository statistics\<close>

lemma fold_traversal:
  "fold (\<lambda>repo. fold (\<lambda>branch. fold (\<lambda>commit. addCommit (FullName repo) commit)
                                        (Branch.Commits branch))
                        (Branches repo)) repos s
   = fold (\<lambda>(n, c). addCommit n c) (traversal repos) s"
proof (induction repos arbitrary: s)
  case Nil
  then show ?case by (simp add: traversal_def)
next
  case (Cons r rs)
  have commits: "\<And>n cs s. fold (\<lambda>(n, c). addCommit n c) (map (Pair n) cs) s = fold (addCommit n) cs s"
    by (simp add: fold_map comp_def)
  have branches: "\<And>bs s. fold (\<lambda>(n, c). addCommit n c)
        (concat (map (\<lambda>branch. map (Pair (FullName r)) (Branch.Commits branch)) bs)) s =
      fold (\<lambda>branch. fold (addCommit (FullName r)) (Branch.Commits branch)) bs s"
    subgoal for bs s by (induction bs arbitrary: s) (simp_all add: commits)
    done
  show ?case using Cons.IH by (simp add: traversal_def branches)
qed

lemma generateSummary_traversal:
  "generateSummary repos = fold (\<lambda>(n, c). addCommit n c) (traversal repos) Map.empty"
  by (simp add: generateSummary_def fold_traversal)

lemma sumOver_empty: "sumOver f Map.empty = 0"
  by (simp add: sumOver_def)

lemma sumOver_update:
  assumes "finite (dom m)"
  shows "sumOver f (m(k \<mapsto> v)) = sumOver f m - (case m k of None \<Rightarrow> 0 | Some u \<Rightarrow> f u) + f v"
proof (cases "m k")
  case None
  then have "k \<notin> dom m" by auto
  have "sumOver f (m(k \<mapsto> v)) = (\<Sum>r \<in> insert k (dom m). f (the ((m(k \<mapsto> v)) r)))"
    by (simp add: sumOver_def)
  also have "\<dots> = f v + (\<Sum>r \<in> dom m. f (the ((m(k \<mapsto> v)) r)))"
    using assms \<open>k \<notin> dom m\<close> by (simp add: sum.insert)
  also have "(\<Sum>r \<in> dom m. f (the ((m(k \<mapsto> v)) r))) = (\<Sum>r \<in> dom m. f (the (m r)))"
    using \<open>k \<notin> dom m\<close> by (intro sum.cong) auto
  finally have "sumOver f (m(k \<mapsto> v)) = f v + sumOver f m"
    by (simp only: sumOver_def [of f m])
  then show ?thesis by (simp only: None option.case diff_zero add.commute)
next
  case (Some u)
  then have kin: "k \<in> dom m" by auto
  then have dom_eq: "dom (m(k \<mapsto> v)) = dom m" by auto
  have "sumOver f (m(k \<mapsto> v)) = (\<Sum>r \<in> dom m. f (the ((m(k \<mapsto> v)) r)))"
    by (simp add: sumOver_def dom_eq del: dom_fun_upd)
  also have "\<dots> = f v + (\<Sum>r \<in> dom m - {k}. f (the ((m(k \<mapsto> v)) r)))"
    using assms kin by (simp add: sum.remove)
  also have "(\<Sum>r \<in> dom m - {k}. f (the ((m(k \<mapsto> v)) r))) = (\<Sum>r \<in> dom m - {k}. f (the (m r)))"
    by (intro sum.cong) auto
  finally have new: "sumOver f (m(k \<mapsto> v)) = f v + (\<Sum>r \<in> dom m - {k}. f (the (m r)))" .
  have old: "sumOver f m = f u + (\<Sum>r \<in> dom m - {k}. f (the (m r)))"
    using assms kin Some by (simp add: sumOver_def sum.remove)
  show ?thesis by (simp only: new old Some option.case) simp
qed

lemma addCommit_other:
  "k \<noteq> getAuthorKey (Author c) \<Longrightarrow> addCommit n c s k = s k"
  by (simp add: addCommit_def Let_def)

lemma addCommit_consistent:
  assumes "\<And>k stats. s k = Some stats \<Longrightarrow> consistent stats"
    and "addCommit n c s k = Some stats"
  shows "consistent stats"
proof (cases "k = getAuthorKey (Author c)")
  case False
  then show ?thesis using assms by (simp add: addCommit_other)
next
  case True
  show ?thesis
  proof (cases "s k")
    case None
    then show ?thesis using assms(2) True
      by (auto simp: addCommit_def Let_def consistent_def sumOver_def lookupRepositoryStats_def)
  next
    case (Some old)
    then have "consistent old" by (rule assms(1))
    then show ?thesis using assms(2) True Some
      by (auto simp: addCommit_def Let_def consistent_def sumOver_update lookupRepositoryStats_def
               split: option.splits)
  qed
qed

lemma fold_addCommit_consistent:
  "(\<And>k stats. s k = Some stats \<Longrightarrow> consistent stats) \<Longrightarrow>
   fold (\<lambda>(n, c). addCommit n c) t s k = Some stats \<Longrightarrow> consistent stats"
proof (induction t arbitrary: s k stats)
  case Nil
  then show ?case by simp
next
  case (Cons x t)
  obtain n c where x: "x = (n, c)" by (cases x)
  have step: "\<And>k stats. addCommit n c s k = Some stats \<Longrightarrow> consistent stats"
    using Cons.prems(1) by (rule addCommit_consistent)
  show ?case
    using Cons.IH [of "addCommit n c s" k stats] step Cons.prems(2) by (simp add: x)
qed

lemmas summary_eval = generateSummary_def addCommit_def getAuthorKey_def lookupRepositoryStats_def Let_def

text \<open>
  C1: in every summary produced by generateSummary, every contributor's TotalCommits is
  the sum of Commits over the entries of its Repositories map (a finite map), and
  likewise TotalAdditions and TotalDeletions are the sums of the per-repository
  Additions and Deletions. The sums are those of Go's \<open>int\<close>, which wrap around.
\<close>

theorem generateSummary_totals:
  "generateSummary repos key = Some stats \<Longrightarrow>
   finite (dom (Repositories stats)) \<and>
   TotalCommits stats = (\<Sum>r \<in> dom (Repositories stats). RepositoryStats.Commits (the (Repositories stats r))) \<and>
   TotalAdditions stats = (\<Sum>r \<in> dom (Repositories stats). RepositoryStats.Additions (the (Repositories stats r))) \<and>
   TotalDeletions stats = (\<Sum>r \<in> dom (Repositories stats). RepositoryStats.Deletions (the (Repositories stats r)))"
proof -
  assume "generateSummary repos key = Some stats"
  then have "fold (\<lambda>(n, c). addCommit n c) (traversal repos) Map.empty key = Some stats"
    by (simp add: generateSummary_traversal)
  then have "consistent stats"
    by (rule fold_addCommit_consistent [rotated]) simp
  then show ?thesis by (simp add: consistent_def sumOver_def)
qed

theorem generateSummary_totals_witness:
  "generateSummary
     [\<lparr>Repository.Name = ''repo1'', FullName = ''owner/repo1'', URL = [], DefaultBranch = ''main'',
       Branches = [\<lparr>Branch.Name = ''main'', SHA = [], Commits =
         [\<lparr>Commit.SHA = ''abc123'', Message = ''Test commit'',
           Author = \<lparr>Author.Name = ''John Doe'', Email = ''john@example.com'', Login = ''johndoe''\<rparr>,
           Date = 0, Stats = \<lparr>CommitStats.Additions = 10, Deletions = 5, Total = 15\<rparr>\<rparr>,
          \<lparr>Commit.SHA = ''def456'', Message = ''Another commit'',
           Author = \<lparr>Author.Name = ''John Doe'', Email = ''john@example.com'', Login = ''johndoe''\<rparr>,
           Date = 0, Stats = \<lparr>CommitStats.Additions = 20, Deletions = 3, Total = 23\<rparr>\<rparr>]\<rparr>]\<rparr>]
     ''johndoe'' =
   Some \<lparr>ContributorStats.Name = ''John Doe'', Email = ''john@example.com'', Login = ''johndoe'',
         TotalCommits = 2, TotalAdditions = 30, TotalDeletions = 8,
         Repositories = [''owner/repo1'' \<mapsto> \<lparr>RepositoryStats.Commits = 2, Additions = 30, Deletions = 8\<rparr>]\<rparr> \<and>
   (\<Sum>r \<in> dom [''owner/repo1'' \<mapsto> \<lparr>RepositoryStats.Commits = 2, Additions = 30, Deletions = 8\<rparr>].
      RepositoryStats.Commits
        (the ([''owner/repo1'' \<mapsto> \<lparr>RepositoryStats.Commits = 2, Additions = (30::goint), Deletions = (8::goint)\<rparr>] r))) = (2::goint)"
  (is "?g = Some ?s \<and> _")
proof -
  have h: "?g = Some ?s" by (simp add: summary_eval)
  from generateSummary_totals [OF h] h show ?thesis by simp
qed

subsection \<open>Permuting the traversal order\<close>

lemma repoStats_update_all:
  "r\<lparr>RepositoryStats.Commits := a, Additions := b, Deletions := d\<rparr> =
   \<lparr>RepositoryStats.Commits = a, Additions = b, Deletions = d\<rparr>"
  by (cases r) simp

lemma addCommit_apply:
  "addCommit n c s k =
     (if k = getAuthorKey (Author c)
      then Some (countCommit n c (case s k of None \<Rightarrow> seedStats c | Some found \<Rightarrow> found))
      else s k)"
  by (simp add: addCommit_def Let_def seedStats_def countCommit_def repoStats_update_all
        split: option.split)

lemma countCommit_commute:
  "countCommit n c (countCommit n' c' stats) = countCommit n' c' (countCommit n c stats)"
  by (cases stats) (auto simp: countCommit_def lookupRepositoryStats_def ac_simps fun_eq_iff)

lemma forget_countCommit:
  "forgetIdentity (countCommit n c stats) = countCommit n c (forgetIdentity stats)"
  by (simp add: countCommit_def forgetIdentity_def)

lemma forget_idem: "forgetIdentity (forgetIdentity stats) = forgetIdentity stats"
  by (simp add: forgetIdentity_def)

lemma forget_seedStats: "forgetIdentity (seedStats c) = forgetIdentity (seedStats c')"
  by (simp add: forgetIdentity_def seedStats_def)

lemma seedStats_cong: "Author c = Author c' \<Longrightarrow> seedStats c = seedStats c'"
  by (simp add: seedStats_def)

lemma addCommit_commute:
  assumes "getAuthorKey (Author c) = getAuthorKey (Author c') \<Longrightarrow> Author c = Author c'"
  shows "addCommit n c (addCommit n' c' s) = addCommit n' c' (addCommit n c s)"
proof (rule ext)
  fix k
  show "addCommit n c (addCommit n' c' s) k = addCommit n' c' (addCommit n c s) k"
  proof (cases "getAuthorKey (Author c) = getAuthorKey (Author c')")
    case False
    then show ?thesis by (auto simp: addCommit_apply)
  next
    case True
    then have "seedStats c = seedStats c'" using assms by (intro seedStats_cong) simp
    then show ?thesis using True
      by (simp add: addCommit_apply countCommit_commute split: option.split)
  qed
qed

lemma addForget_apply:
  "addForget (n, c) s k =
     (if k = getAuthorKey (Author c)
      then Some (countCommit n c
             (forgetIdentity (case s k of None \<Rightarrow> seedStats c | Some found \<Rightarrow> found)))
      else map_option forgetIdentity (s k))"
  by (simp add: addForget_def addCommit_apply forget_countCommit)

lemma addForget_absorb:
  "map_option forgetIdentity \<circ> addCommit n c (map_option forgetIdentity \<circ> s) =
   map_option forgetIdentity \<circ> addCommit n c s"
  by (rule ext) (simp add: addCommit_apply forget_countCommit forget_idem option.map_comp comp_def
         split: option.split)

lemma addForget_commute: "addForget x \<circ> addForget y = addForget y \<circ> addForget x"
proof -
  obtain n c where x: "x = (n, c)" by (cases x)
  obtain n' c' where y: "y = (n', c')" by (cases y)
  have "addForget (n, c) (addForget (n', c') s) k = addForget (n', c') (addForget (n, c) s) k" for s k
    using forget_seedStats [of c c']
    by (simp add: addForget_apply forget_countCommit forget_idem countCommit_commute
          option.map_comp comp_def split: option.split)
  then show ?thesis by (simp add: x y fun_eq_iff)
qed

lemma fold_addForget:
  "fold addForget t (map_option forgetIdentity \<circ> s) =
   map_option forgetIdentity \<circ> fold (\<lambda>(n, c). addCommit n c) t s"
proof (induction t arbitrary: s)
  case Nil
  then show ?case by simp
next
  case (Cons x t)
  obtain n c where x: "x = (n, c)" by (cases x)
  have step: "addForget (n, c) (map_option forgetIdentity \<circ> s) =
              map_option forgetIdentity \<circ> addCommit n c s"
    by (simp only: addForget_def fst_conv snd_conv addForget_absorb)
  have "fold addForget (x # t) (map_option forgetIdentity \<circ> s) =
        fold addForget t (addForget (n, c) (map_option forgetIdentity \<circ> s))"
    by (simp only: x fold_simps comp_apply)
  also have "\<dots> = fold addForget t (map_option forgetIdentity \<circ> addCommit n c s)"
    by (simp only: step)
  also have "\<dots> = map_option forgetIdentity \<circ> fold (\<lambda>(n, c). addCommit n c) t (addCommit n c s)"
    by (rule Cons.IH)
  also have "\<dots> = map_option forgetIdentity \<circ> fold (\<lambda>(n, c). addCommit n c) (x # t) s"
    by (simp add: x)
  finally show ?case .
qed

lemma forget_permuted:
  assumes "mset t = mset t'"
  shows "map_option forgetIdentity \<circ> fold (\<lambda>(n, c). addCommit n c) t Map.empty =
         map_option forgetIdentity \<circ> fold (\<lambda>(n, c). addCommit n c) t' Map.empty"
proof -
  have "fold addForget t = fold addForget t'"
    by (rule fold_multiset_equiv [OF addForget_commute assms])
  then have "fold addForget t (map_option forgetIdentity \<circ> Map.empty) =
             fold addForget t' (map_option forgetIdentity \<circ> Map.empty)" by simp
  then show ?thesis by (simp only: fold_addForget)
qed

lemma whole_permuted:
  assumes "mset t = mset t'" and "sameAuthorPerKey t"
  shows "fold (\<lambda>(n, c). addCommit n c) t = fold (\<lambda>(n, c). addCommit n c) t'"
proof (rule fold_multiset_equiv [OF _ assms(1)])
  fix x y assume "x \<in> set t" "y \<in> set t"
  with assms(2) have "getAuthorKey (Author (snd x)) = getAuthorKey (Author (snd y)) \<Longrightarrow>
      Author (snd x) = Author (snd y)"
    by (simp add: sameAuthorPerKey_def)
  then have "addCommit (fst x) (snd x) (addCommit (fst y) (snd y) s) =
             addCommit (fst y) (snd y) (addCommit (fst x) (snd x) s)" for s
    by (rule addCommit_commute)
  then show "(case x of (n, c) \<Rightarrow> addCommit n c) \<circ> (case y of (n, c) \<Rightarrow> addCommit n c) =
             (case y of (n, c) \<Rightarrow> addCommit n c) \<circ> (case x of (n, c) \<Rightarrow> addCommit n c)"
    by (simp add: fun_eq_iff split_beta)
qed

lemma countCommit_identity:
  "ContributorStats.Name (countCommit n c stats) = ContributorStats.Name stats \<and>
   ContributorStats.Email (countCommit n c stats) = ContributorStats.Email stats \<and>
   ContributorStats.Login (countCommit n c stats) = ContributorStats.Login stats"
  by (simp add: countCommit_def)

lemma fold_addCommit_identity:
  "fold (\<lambda>(n, c). addCommit n c) t s key = Some stats \<Longrightarrow>
   (case s key of
      Some old \<Rightarrow>
        ContributorStats.Name stats = ContributorStats.Name old \<and>
        ContributorStats.Email stats = ContributorStats.Email old \<and>
        ContributorStats.Login stats = ContributorStats.Login old
    | None \<Rightarrow>
        (\<exists>n c. find (\<lambda>x. getAuthorKey (Author (snd x)) = key) t = Some (n, c) \<and>
           ContributorStats.Name stats = Author.Name (Author c) \<and>
           ContributorStats.Email stats = Author.Email (Author c) \<and>
           ContributorStats.Login stats = Author.Login (Author c)))"
proof (induction t arbitrary: s)
  case Nil
  then show ?case by simp
next
  case (Cons x t)
  obtain n c where x: "x = (n, c)" by (cases x)
  from Cons.prems have run: "fold (\<lambda>(n, c). addCommit n c) t (addCommit n c s) key = Some stats"
    by (simp add: x)
  note ih = Cons.IH [OF run]
  show ?case
  proof (cases "key = getAuthorKey (Author c)")
    case False
    then show ?thesis using ih by (auto simp: addCommit_apply x split: option.splits)
  next
    case True
    then show ?thesis using ih
      by (auto simp: addCommit_apply x countCommit_identity seedStats_def split: option.splits)
  qed
qed

text \<open>
  C2, as the code has it: when the loops visit the same commits of the same repositories
  in another order, the summary has the same keys, and every contributor has the same
  TotalCommits, TotalAdditions, TotalDeletions and per-repository statistics. The seeded
  Name, Email and Login are those of the first visited commit with the key; the whole
  summary is identical when commits with the same author key carry the same Author
  record.
\<close>

theorem generateSummary_permuted:
  assumes "mset (traversal repos) = mset (traversal repos')"
  shows "dom (generateSummary repos) = dom (generateSummary repos') \<and>
     (\<forall>key stats stats'.
        generateSummary repos key = Some stats \<and> generateSummary repos' key = Some stats' \<longrightarrow>
        TotalCommits stats = TotalCommits stats' \<and>
        TotalAdditions stats = TotalAdditions stats' \<and>
        TotalDeletions stats = TotalDeletions stats' \<and>
        Repositories stats = Repositories stats') \<and>
     (\<forall>key stats.
        generateSummary repos key = Some stats \<longrightarrow>
        (\<exists>n c. find (\<lambda>x. getAuthorKey (Author (snd x)) = key) (traversal repos) = Some (n, c) \<and>
           ContributorStats.Name stats = Author.Name (Author c) \<and>
           ContributorStats.Email stats = Author.Email (Author c) \<and>
           ContributorStats.Login stats = Author.Login (Author c))) \<and>
     (sameAuthorPerKey (traversal repos) \<longrightarrow> generateSummary repos = generateSummary repos')"
proof -
  have i: "\<exists>n c. find (\<lambda>x. getAuthorKey (Author (snd x)) = key) (traversal repos) = Some (n, c) \<and>
           ContributorStats.Name stats = Author.Name (Author c) \<and>
           ContributorStats.Email stats = Author.Email (Author c) \<and>
           ContributorStats.Login stats = Author.Login (Author c)"
    if "generateSummary repos key = Some stats" for key stats
    using fold_addCommit_identity [of "traversal repos" Map.empty key stats] that
    by (simp add: generateSummary_traversal)
  have f: "map_option forgetIdentity (generateSummary repos key) =
           map_option forgetIdentity (generateSummary repos' key)" for key
    using forget_permuted [OF assms] by (simp add: generateSummary_traversal fun_eq_iff)
  have d: "dom (generateSummary repos) = dom (generateSummary repos')"
  proof (rule set_eqI)
    fix key show "key \<in> dom (generateSummary repos) \<longleftrightarrow> key \<in> dom (generateSummary repos')"
      using f [of key]
      by (cases "generateSummary repos key"; cases "generateSummary repos' key") auto
  qed
  have n: "TotalCommits stats = TotalCommits stats' \<and>
        TotalAdditions stats = TotalAdditions stats' \<and>
        TotalDeletions stats = TotalDeletions stats' \<and>
        Repositories stats = Repositories stats'"
    if "generateSummary repos key = Some stats" "generateSummary repos' key = Some stats'"
    for key stats stats'
  proof -
    from f [of key] that have "forgetIdentity stats = forgetIdentity stats'" by simp
    then show ?thesis
      by (cases stats, cases stats') (simp add: forgetIdentity_def)
  qed
  have w: "generateSummary repos = generateSummary repos'" if "sameAuthorPerKey (traversal repos)"
    using whole_permuted [OF assms that] by (simp add: generateSummary_traversal)
  from d n i w show ?thesis by blast
qed

theorem generateSummary_permuted_witness:
  "mset (traversal
     [\<lparr>Repository.Name = ''r1'', FullName = ''o/r1'', URL = [], DefaultBranch = ''main'',
       Branches = [\<lparr>Branch.Name = ''main'', SHA = [], Commits =
         [\<lparr>Commit.SHA = ''1'', Message = [],
           Author = \<lparr>Author.Name = ''Ann'', Email = ''ann@example.com'', Login = ''ann''\<rparr>,
           Date = 0, Stats = \<lparr>CommitStats.Additions = 10, Deletions = 5, Total = 15\<rparr>\<rparr>,
          \<lparr>Commit.SHA = ''2'', Message = [],
           Author = \<lparr>Author.Name = ''Ann'', Email = ''ann@example.com'', Login = ''ann''\<rparr>,
           Date = 0, Stats = \<lparr>CommitStats.Additions = 20, Deletions = 3, Total = 23\<rparr>\<rparr>]\<rparr>,
        \<lparr>Branch.Name = ''dev'', SHA = [], Commits =
         [\<lparr>Commit.SHA = ''3'', Message = [],
           Author = \<lparr>Author.Name = ''Bob'', Email = ''bob@example.com'', Login = ''''\<rparr>,
           Date = 0, Stats = \<lparr>CommitStats.Additions = 1, Deletions = 1, Total = 2\<rparr>\<rparr>]\<rparr>]\<rparr>,
      \<lparr>Repository.Name = ''r2'', FullName = ''o/r2'', URL = [], DefaultBranch = ''main'',
       Branches = [\<lparr>Branch.Name = ''main'', SHA = [], Commits =
         [\<lparr>Commit.SHA = ''4'', Message = [],
           Author = \<lparr>Author.Name = ''Ann'', Email = ''ann@example.com'', Login = ''ann''\<rparr>,
           Date = 0, Stats = \<lparr>CommitStats.Additions = 7, Deletions = 0, Total = 7\<rparr>\<rparr>]\<rparr>]\<rparr>]) =
   mset (traversal
     [\<lparr>Repository.Name = ''r2'', FullName = ''o/r2'', URL = [], DefaultBranch = ''main'',
       Branches = [\<lparr>Branch.Name = ''main'', SHA = [], Commits =
         [\<lparr>Commit.SHA = ''4'', Message = [],
           Author = \<lparr>Author.Name = ''Ann'', Email = ''ann@example.com'', Login = ''ann''\<rparr>,
           Date = 0, Stats = \<lparr>CommitStats.Additions = 7, Deletions = 0, Total = 7\<rparr>\<rparr>]\<rparr>]\<rparr>,
      \<lparr>Repository.Name = ''r1'', FullName = ''o/r1'', URL = [], DefaultBranch = ''main'',
       Branches = [\<lparr>Branch.Name = ''dev'', SHA = [], Commits =
         [\<lparr>Commit.SHA = ''3'', Message = [],
           Author = \<lparr>Author.Name = ''Bob'', Email = ''bob@example.com'', Login = ''''\<rparr>,
           Date = 0, Stats = \<lparr>CommitStats.Additions = 1, Deletions = 1, Total = 2\<rparr>\<rparr>]\<rparr>,
        \<lparr>Branch.Name = ''main'', SHA = [], Commits =
         [\<lparr>Commit.SHA = ''2'', Message = [],
           Author = \<lparr>Author.Name = ''Ann'', Email = ''ann@example.com'', Login = ''ann''\<rparr>,
           Date = 0, Stats = \<lparr>CommitStats.Additions = 20, Deletions = 3, Total = 23\<rparr>\<rparr>,
          \<lparr>Commit.SHA = ''1'', Message = [],
           Author = \<lparr>Author.Name = ''Ann'', Email = ''ann@example.com'', Login = ''ann''\<rparr>,
           Date = 0, Stats = \<lparr>CommitStats.Additions = 10, Deletions = 5, Total = 15\<rparr>\<rparr>]\<rparr>]\<rparr>]) \<and>
   sameAuthorPerKey (traversal
     [\<lparr>Repository.Name = ''r1'', FullName = ''o/r1'', URL = [], DefaultBranch = ''main'',
       Branches = [\<lparr>Branch.Name = ''main'', SHA = [], Commits =
         [\<lparr>Commit.SHA = ''1'', Message = [],
           Author = \<lparr>Author.Name = ''Ann'', Email = ''ann@example.com'', Login = ''ann''\<rparr>,
           Date = 0, Stats = \<lparr>CommitStats.Additions = 10, Deletions = 5, Total = 15\<rparr>\<rparr>,
          \<lparr>Commit.SHA = ''2'', Message = [],
           Author = \<lparr>Author.Name = ''Ann'', Email = ''ann@example.com'', Login = ''ann''\<rparr>,
           Date = 0, Stats = \<lparr>CommitStats.Additions = 20, Deletions = 3, Total = 23\<rparr>\<rparr>]\<rparr>,
        \<lparr>Branch.Name = ''dev'', SHA = [], Commits =
         [\<lparr>Commit.SHA = ''3'', Message = [],
           Author = \<lparr>Author.Name = ''Bob'', Email = ''bob@example.com'', Login = ''''\<rparr>,
           Date = 0, Stats = \<lparr>CommitStats.Additions = 1, Deletions = 1, Total = 2\<rparr>\<rparr>]\<rparr>]\<rparr>,
      \<lparr>Repository.Name = ''r2'', FullName = ''o/r2'', URL = [], DefaultBranch = ''main'',
       Branches = [\<lparr>Branch.Name = ''main'', SHA = [], Commits =
         [\<lparr>Commit.SHA = ''4'', Message = [],
           Author = \<lparr>Author.Name = ''Ann'', Email = ''ann@example.com'', Login = ''ann''\<rparr>,
           Date = 0, Stats = \<lparr>CommitStats.Additions = 7, Deletions = 0, Total = 7\<rparr>\<rparr>]\<rparr>]\<rparr>]) \<and>
   generateSummary
     [\<lparr>Repository.Name = ''r1'', FullName = ''o/r1'', URL = [], DefaultBranch = ''main'',
       Branches = [\<lparr>Branch.Name = ''main'', SHA = [], Commits =
         [\<lparr>Commit.SHA = ''1'', Message = [],
           Author = \<lparr>Author.Name = ''Ann'', Email = ''ann@example.com'', Login = ''ann''\<rparr>,
           Date = 0, Stats = \<lparr>CommitStats.Additions = 10, Deletions = 5, Total = 15\<rparr>\<rparr>,
          \<lparr>Commit.SHA = ''2'', Message = [],
           Author = \<lparr>Author.Name = ''Ann'', Email = ''ann@example.com'', Login = ''ann''\<rparr>,
           Date = 0, Stats = \<lparr>CommitStats.Additions = 20, Deletions = 3, Total = 23\<rparr>\<rparr>]\<rparr>,
        \<lparr>Branch.Name = ''dev'', SHA = [], Commits =
         [\<lparr>Commit.SHA = ''3'', Message = [],
           Author = \<lparr>Author.Name = ''Bob'', Email = ''bob@example.com'', Login = ''''\<rparr>,
           Date = 0, Stats = \<lparr>CommitStats.Additions = 1, Deletions = 1, Total = 2\<rparr>\<rparr>]\<rparr>]\<rparr>,
      \<lparr>Repository.Name = ''r2'', FullName = ''o/r2'', URL = [], DefaultBranch = ''main'',
       Branches = [\<lparr>Branch.Name = ''main'', SHA = [], Commits =
         [\<lparr>Commit.SHA = ''4'', Message = [],
           Author = \<lparr>Author.Name = ''Ann'', Email = ''ann@example.com'', Login = ''ann''\<rparr>,
           Date = 0, Stats = \<lparr>CommitStats.Additions = 7, Deletions = 0, Total = 7\<rparr>\<rparr>]\<rparr>]\<rparr>] =
   generateSummary
     [\<lparr>Repository.Name = ''r2'', FullName = ''o/r2'', URL = [], DefaultBranch = ''main'',
       Branches = [\<lparr>Branch.Name = ''main'', SHA = [], Commits =
         [\<lparr>Commit.SHA = ''4'', Message = [],
           Author = \<lparr>Author.Name = ''Ann'', Email = ''ann@example.com'', Login = ''ann''\<rparr>,
           Date = 0, Stats = \<lparr>CommitStats.Additions = 7, Deletions = 0, Total = 7\<rparr>\<rparr>]\<rparr>]\<rparr>,
      \<lparr>Repository.Name = ''r1'', FullName = ''o/r1'', URL = [], DefaultBranch = ''main'',
       Branches = [\<lparr>Branch.Name = ''dev'', SHA = [], Commits =
         [\<lparr>Commit.SHA = ''3'', Message = [],
           Author = \<lparr>Author.Name = ''Bob'', Email = ''bob@example.com'', Login = ''''\<rparr>,
           Date = 0, Stats = \<lparr>CommitStats.Additions = 1, Deletions = 1, Total = 2\<rparr>\<rparr>]\<rparr>,
        \<lparr>Branch.Name = ''main'', SHA = [], Commits =
         [\<lparr>Commit.SHA = ''2'', Message = [],
           Author = \<lparr>Author.Name = ''Ann'', Email = ''ann@example.com'', Login = ''ann''\<rparr>,
           Date = 0, Stats = \<lparr>CommitStats.Additions = 20, Deletions = 3, Total = 23\<rparr>\<rparr>,
          \<lparr>Commit.SHA = ''1'', Message = [],
           Author = \<lparr>Author.Name = ''Ann'', Email = ''ann@example.com'', Login = ''ann''\<rparr>,
           Date = 0, Stats = \<lparr>CommitStats.Additions = 10, Deletions = 5, Total = 15\<rparr>\<rparr>]\<rparr>]\<rparr>]"
  (is "mset (traversal ?R) = mset (traversal ?R') \<and> _")
proof -
  have m: "mset (traversal ?R) = mset (traversal ?R')"
    by (simp add: traversal_def)
  have a: "sameAuthorPerKey (traversal ?R)"
    by (simp add: sameAuthorPerKey_def traversal_def getAuthorKey_def)
  from generateSummary_permuted [OF m] m a show ?thesis by blast
qed

text \<open>
  Two commits with the login x and the display names A and B: visiting them in the other
  order changes the seeded Name of the contributor x.
\<close>

theorem generateSummary_permuted_counterexample:
  "mset (traversal
     [\<lparr>Repository.Name = ''r'', FullName = ''o/r'', URL = [], DefaultBranch = ''main'',
       Branches = [\<lparr>Branch.Name = ''main'', SHA = [], Commits =
         [\<lparr>Commit.SHA = ''1'', Message = [],
           Author = \<lparr>Author.Name = ''A'', Email = [], Login = ''x''\<rparr>,
           Date = 0, Stats = \<lparr>CommitStats.Additions = 0, Deletions = 0, Total = 0\<rparr>\<rparr>,
          \<lparr>Commit.SHA = ''2'', Message = [],
           Author = \<lparr>Author.Name = ''B'', Email = [], Login = ''x''\<rparr>,
           Date = 0, Stats = \<lparr>CommitStats.Additions = 0, Deletions = 0, Total = 0\<rparr>\<rparr>]\<rparr>]\<rparr>]) =
   mset (traversal
     [\<lparr>Repository.Name = ''r'', FullName = ''o/r'', URL = [], DefaultBranch = ''main'',
       Branches = [\<lparr>Branch.Name = ''main'', SHA = [], Commits =
         [\<lparr>Commit.SHA = ''2'', Message = [],
           Author = \<lparr>Author.Name = ''B'', Email = [], Login = ''x''\<rparr>,
           Date = 0, Stats = \<lparr>CommitStats.Additions = 0, Deletions = 0, Total = 0\<rparr>\<rparr>,
          \<lparr>Commit.SHA = ''1'', Message = [],
           Author = \<lparr>Author.Name = ''A'', Email = [], Login = ''x''\<rparr>,
           Date = 0, Stats = \<lparr>CommitStats.Additions = 0, Deletions = 0, Total = 0\<rparr>\<rparr>]\<rparr>]\<rparr>]) \<and>
   generateSummary
     [\<lparr>Repository.Name = ''r'', FullName = ''o/r'', URL = [], DefaultBranch = ''main'',
       Branches = [\<lparr>Branch.Name = ''main'', SHA = [], Commits =
         [\<lparr>Commit.SHA = ''1'', Message = [],
           Author = \<lparr>Author.Name = ''A'', Email = [], Login = ''x''\<rparr>,
           Date = 0, Stats = \<lparr>CommitStats.Additions = 0, Deletions = 0, Total = 0\<rparr>\<rparr>,
          \<lparr>Commit.SHA = ''2'', Message = [],
           Author = \<lparr>Author.Name = ''B'', Email = [], Login = ''x''\<rparr>,
           Date = 0, Stats = \<lparr>CommitStats.Additions = 0, Deletions = 0, Total = 0\<rparr>\<rparr>]\<rparr>]\<rparr>] \<noteq>
   generateSummary
     [\<lparr>Repository.Name = ''r'', FullName = ''o/r'', URL = [], DefaultBranch = ''main'',
       Branches = [\<lparr>Branch.Name = ''main'', SHA = [], Commits =
         [\<lparr>Commit.SHA = ''2'', Message = [],
           Author = \<lparr>Author.Name = ''B'', Email = [], Login = ''x''\<rparr>,
           Date = 0, Stats = \<lparr>CommitStats.Additions = 0, Deletions = 0, Total = 0\<rparr>\<rparr>,
          \<lparr>Commit.SHA = ''1'', Message = [],
           Author = \<lparr>Author.Name = ''A'', Email = [], Login = ''x''\<rparr>,
           Date = 0, Stats = \<lparr>CommitStats.Additions = 0, Deletions = 0, Total = 0\<rparr>\<rparr>]\<rparr>]\<rparr>]"
  (is "?m \<and> ?g \<noteq> ?g'")
proof
  show ?m by (simp add: traversal_def)
  have "?g ''x'' \<noteq> ?g' ''x''" by (simp add: summary_eval)
  then show "?g \<noteq> ?g'" by metis
qed

section \<open>Properties of the client\<close>

lemma detailCommits_fst:
  "fst (detailCommits getCommit commits (result, logged)) =
     result @ concat (map (\<lambda>commit.
        case getCommit (getValue [] github_RepositoryCommit.SHA (Some commit)) of
          Inl err \<Rightarrow> [] | Inr detailedCommit \<Rightarrow> [toCommit commit detailedCommit]) commits)"
  by (induction commits arbitrary: result logged) (auto split: sum.splits)

lemma toCommit_stats:
  "Stats (toCommit commit detailedCommit) =
     \<lparr>CommitStats.Additions = getValue 0 github_CommitStats.Additions (github_RepositoryCommit.Stats detailedCommit),
      Deletions = getValue 0 github_CommitStats.Deletions (github_RepositoryCommit.Stats detailedCommit),
      Total = getValue 0 github_CommitStats.Total (github_RepositoryCommit.Stats detailedCommit)\<rparr>"
  by (simp add: toCommit_def getPointer_def)

lemmas client_eval = ListCommits_def ListBranches_def fetchAllPages.simps toCommit_def commitAuthor_def
  getValue_def getPointer_def

text \<open>
  C7, as the code has it: the Commits returned by ListCommits are, in listing order, the
  records built from the listed commits whose detailed version was fetched. Each
  returned Commit is the record of one listed commit (it has that commit's SHA), and its
  Additions, Deletions and Total are the three statistics of the detailed version of
  that same commit (0 for a missing one), each copied on its own. Hence
  Total = Additions + Deletions holds for the Commit exactly when it holds for the
  statistics the API answered for it.
\<close>

theorem ListCommits_stats_copied:
  assumes "ListCommits api owner repo branch since until = Some (Inr commits, logged)"
  shows "\<exists>allCommits.
     fetchAllPages (Repositories_ListCommits api owner repo branch since until) 0 [] = Some (Inr allCommits) \<and>
     commits =
       concat (map (\<lambda>commit.
          case Repositories_GetCommit api owner repo (getValue [] github_RepositoryCommit.SHA (Some commit)) of
            Inl err \<Rightarrow> []
          | Inr detailedCommit \<Rightarrow> [toCommit commit detailedCommit]) allCommits) \<and>
     (\<forall>c \<in> set commits. \<exists>commit detailedCommit.
        commit \<in> set allCommits \<and>
        Repositories_GetCommit api owner repo (getValue [] github_RepositoryCommit.SHA (Some commit)) =
          Inr detailedCommit \<and>
        c = toCommit commit detailedCommit \<and>
        Commit.SHA c = getValue [] github_RepositoryCommit.SHA (Some commit) \<and>
        CommitStats.Additions (Stats c) =
          getValue 0 github_CommitStats.Additions (github_RepositoryCommit.Stats detailedCommit) \<and>
        CommitStats.Deletions (Stats c) =
          getValue 0 github_CommitStats.Deletions (github_RepositoryCommit.Stats detailedCommit) \<and>
        CommitStats.Total (Stats c) =
          getValue 0 github_CommitStats.Total (github_RepositoryCommit.Stats detailedCommit) \<and>
        (CommitStats.Total (Stats c) = CommitStats.Additions (Stats c) + CommitStats.Deletions (Stats c) \<longleftrightarrow>
         getValue 0 github_CommitStats.Total (github_RepositoryCommit.Stats detailedCommit) =
           getValue 0 github_CommitStats.Additions (github_RepositoryCommit.Stats detailedCommit) +
           getValue 0 github_CommitStats.Deletions (github_RepositoryCommit.Stats detailedCommit)))"
proof -
  let ?get = "\<lambda>commit. Repositories_GetCommit api owner repo
                 (getValue [] github_RepositoryCommit.SHA (Some commit))"
  from assms obtain allCommits where
    pages: "fetchAllPages (Repositories_ListCommits api owner repo branch since until) 0 [] = Some (Inr allCommits)"
    and res: "commits = fst (detailCommits (Repositories_GetCommit api owner repo) allCommits ([], []))"
    by (auto simp: ListCommits_def split: option.splits sum.splits prod.splits)
  have list: "commits = concat (map (\<lambda>commit.
          case ?get commit of Inl err \<Rightarrow> [] | Inr detailedCommit \<Rightarrow> [toCommit commit detailedCommit])
          allCommits)"
    unfolding res by (simp add: detailCommits_fst)
  have each: "\<exists>commit detailedCommit.
        commit \<in> set allCommits \<and> ?get commit = Inr detailedCommit \<and> c = toCommit commit detailedCommit"
    if "c \<in> set commits" for c
  proof -
    from that list obtain commit where
      mem: "commit \<in> set allCommits"
      and c: "c \<in> set (case ?get commit of
                  Inl err \<Rightarrow> [] | Inr detailedCommit \<Rightarrow> [toCommit commit detailedCommit])"
      by auto
    from c obtain detailedCommit where
      "?get commit = Inr detailedCommit" "c = toCommit commit detailedCommit"
      by (cases "?get commit") auto
    with mem show ?thesis by blast
  qed
  have sha: "Commit.SHA (toCommit commit detailedCommit) =
             getValue [] github_RepositoryCommit.SHA (Some commit)" for commit detailedCommit
    by (simp add: toCommit_def)
  have "\<forall>c \<in> set commits. \<exists>commit detailedCommit.
        commit \<in> set allCommits \<and> ?get commit = Inr detailedCommit \<and>
        c = toCommit commit detailedCommit \<and>
        Commit.SHA c = getValue [] github_RepositoryCommit.SHA (Some commit) \<and>
        CommitStats.Additions (Stats c) =
          getValue 0 github_CommitStats.Additions (github_RepositoryCommit.Stats detailedCommit) \<and>
        CommitStats.Deletions (Stats c) =
          getValue 0 github_CommitStats.Deletions (github_RepositoryCommit.Stats detailedCommit) \<and>
        CommitStats.Total (Stats c) =
          getValue 0 github_CommitStats.Total (github_RepositoryCommit.Stats detailedCommit) \<and>
        (CommitStats.Total (Stats c) = CommitStats.Additions (Stats c) + CommitStats.Deletions (Stats c) \<longleftrightarrow>
         getValue 0 github_CommitStats.Total (github_RepositoryCommit.Stats detailedCommit) =
           getValue 0 github_CommitStats.Additions (github_RepositoryCommit.Stats detailedCommit) +
           getValue 0 github_CommitStats.Deletions (github_RepositoryCommit.Stats detailedCommit))"
  proof
    fix c assume "c \<in> set commits"
    from each [OF this] obtain commit detailedCommit where
      "commit \<in> set allCommits" "?get commit = Inr detailedCommit" "c = toCommit commit detailedCommit"
      by blast
    then show "\<exists>commit detailedCommit.
        commit \<in> set allCommits \<and> ?get commit = Inr detailedCommit \<and>
        c = toCommit commit detailedCommit \<and>
        Commit.SHA c = getValue [] github_RepositoryCommit.SHA (Some commit) \<and>
        CommitStats.Additions (Stats c) =
          getValue 0 github_CommitStats.Additions (github_RepositoryCommit.Stats detailedCommit) \<and>
        CommitStats.Deletions (Stats c) =
          getValue 0 github_CommitStats.Deletions (github_RepositoryCommit.Stats detailedCommit) \<and>
        CommitStats.Total (Stats c) =
          getValue 0 github_CommitStats.Total (github_RepositoryCommit.Stats detailedCommit) \<and>
        (CommitStats.Total (Stats c) = CommitStats.Additions (Stats c) + CommitStats.Deletions (Stats c) \<longleftrightarrow>
         getValue 0 github_CommitStats.Total (github_RepositoryCommit.Stats detailedCommit) =
           getValue 0 github_CommitStats.Additions (github_RepositoryCommit.Stats detailedCommit) +
           getValue 0 github_CommitStats.Deletions (github_RepositoryCommit.Stats detailedCommit))"
      by (intro exI [of _ commit] exI [of _ detailedCommit]) (simp add: toCommit_stats sha)
  qed
  with pages list show ?thesis by blast
qed

theorem ListCommits_stats_copied_witness:
  "ListCommits
     \<lparr>Repositories_ListBranches = (\<lambda>owner repo page. Inr ([], 0)),
       Repositories_ListCommits = (\<lambda>owner repo branch since until page.
         Inr ([\<lparr>github_RepositoryCommit.SHA = Some ''abc123'', Commit = None, Author = None, Stats = None\<rparr>,
               \<lparr>github_RepositoryCommit.SHA = Some ''def456'', Commit = None, Author = None, Stats = None\<rparr>], 0)),
       Repositories_GetCommit = (\<lambda>owner repo sha.
         if sha = ''abc123''
         then Inr \<lparr>github_RepositoryCommit.SHA = Some ''abc123'', Commit = None, Author = None,
              Stats = Some \<lparr>github_CommitStats.Additions = Some 1, Deletions = Some 2, Total = Some 3\<rparr>\<rparr>
         else Inr \<lparr>github_RepositoryCommit.SHA = Some ''def456'', Commit = None, Author = None,
              Stats = Some \<lparr>github_CommitStats.Additions = Some 10, Deletions = Some 5, Total = Some 15\<rparr>\<rparr>)\<rparr>
     ''owner'' ''repo1'' ''main'' 0 1 =
   Some (Inr [\<lparr>Commit.SHA = ''abc123'', Message = [],
        Author = \<lparr>Author.Name = [], Email = [], Login = []\<rparr>, Date = 0,
        Stats = \<lparr>CommitStats.Additions = 1, Deletions = 2, Total = 3\<rparr>\<rparr>,
              \<lparr>Commit.SHA = ''def456'', Message = [],
        Author = \<lparr>Author.Name = [], Email = [], Login = []\<rparr>, Date = 0,
        Stats = \<lparr>CommitStats.Additions = 10, Deletions = 5, Total = 15\<rparr>\<rparr>], []) \<and>
   CommitStats.Total (Stats
       \<lparr>Commit.SHA = ''abc123'', Message = [],
        Author = \<lparr>Author.Name = [], Email = [], Login = []\<rparr>, Date = 0,
        Stats = \<lparr>CommitStats.Additions = 1, Deletions = 2, Total = 3\<rparr>\<rparr>) =
   CommitStats.Additions (Stats
       \<lparr>Commit.SHA = ''abc123'', Message = [],
        Author = \<lparr>Author.Name = [], Email = [], Login = []\<rparr>, Date = 0,
        Stats = \<lparr>CommitStats.Additions = 1, Deletions = 2, Total = 3\<rparr>\<rparr>) +
   CommitStats.Deletions (Stats
       \<lparr>Commit.SHA = ''abc123'', Message = [],
        Author = \<lparr>Author.Name = [], Email = [], Login = []\<rparr>, Date = 0,
        Stats = \<lparr>CommitStats.Additions = 1, Deletions = 2, Total = 3\<rparr>\<rparr>) \<and>
   CommitStats.Total (Stats
       \<lparr>Commit.SHA = ''def456'', Message = [],
        Author = \<lparr>Author.Name = [], Email = [], Login = []\<rparr>, Date = 0,
        Stats = \<lparr>CommitStats.Additions = 10, Deletions = 5, Total = 15\<rparr>\<rparr>) =
   CommitStats.Additions (Stats
       \<lparr>Commit.SHA = ''def456'', Message = [],
        Author = \<lparr>Author.Name = [], Email = [], Login = []\<rparr>, Date = 0,
        Stats = \<lparr>CommitStats.Additions = 10, Deletions = 5, Total = 15\<rparr>\<rparr>) +
   CommitStats.Deletions (Stats
       \<lparr>Commit.SHA = ''def456'', Message = [],
        Author = \<lparr>Author.Name = [], Email = [], Login = []\<rparr>, Date = 0,
        Stats = \<lparr>CommitStats.Additions = 10, Deletions = 5, Total = 15\<rparr>\<rparr>)"
  (is "?call = Some (Inr ?cs, []) \<and> _")
proof -
  have h: "?call = Some (Inr ?cs, [])" by (simp add: client_eval)
  from ListCommits_stats_copied [OF h] h show ?thesis by simp
qed

text \<open>
  An API answer with 10 additions, 5 deletions and the total 20 gives a Commit whose
  Total is not Additions + Deletions.
\<close>

theorem ListCommits_total_counterexample:
  "ListCommits
     \<lparr>Repositories_ListBranches = (\<lambda>owner repo page. Inr ([], 0)),
       Repositories_ListCommits = (\<lambda>owner repo branch since until page.
         Inr ([\<lparr>github_RepositoryCommit.SHA = Some ''abc123'', Commit = None, Author = None, Stats = None\<rparr>], 0)),
       Repositories_GetCommit = (\<lambda>owner repo sha.
         Inr \<lparr>github_RepositoryCommit.SHA = Some ''abc123'', Commit = None, Author = None,
              Stats = Some \<lparr>github_CommitStats.Additions = Some 10, Deletions = Some 5, Total = Some 20\<rparr>\<rparr>)\<rparr>
     ''owner'' ''repo1'' ''main'' 0 1 =
   Some (Inr [\<lparr>Commit.SHA = ''abc123'', Message = [],
        Author = \<lparr>Author.Name = [], Email = [], Login = []\<rparr>, Date = 0,
        Stats = \<lparr>CommitStats.Additions = 10, Deletions = 5, Total = 20\<rparr>\<rparr>], []) \<and>
   CommitStats.Total (Stats
       \<lparr>Commit.SHA = ''abc123'', Message = [],
        Author = \<lparr>Author.Name = [], Email = [], Login = []\<rparr>, Date = 0,
        Stats = \<lparr>CommitStats.Additions = 10, Deletions = 5, Total = 20\<rparr>\<rparr>) \<noteq>
   CommitStats.Additions (Stats
       \<lparr>Commit.SHA = ''abc123'', Message = [],
        Author = \<lparr>Author.Name = [], Email = [], Login = []\<rparr>, Date = 0,
        Stats = \<lparr>CommitStats.Additions = 10, Deletions = 5, Total = 20\<rparr>\<rparr>) +
   CommitStats.Deletions (Stats
       \<lparr>Commit.SHA = ''abc123'', Message = [],
        Author = \<lparr>Author.Name = [], Email = [], Login = []\<rparr>, Date = 0,
        Stats = \<lparr>CommitStats.Additions = 10, Deletions = 5, Total = 20\<rparr>\<rparr>)"
  by (simp add: client_eval)

section \<open>Properties of processRepository\<close>

lemma processBranches_returns:
  "\<forall>b \<in> set branches. listCommits (Branch.Name b) \<noteq> None \<Longrightarrow>
   processBranches listCommits fullName branches (processed, logged) =
     Some (processed @ concat (map (fetchedBranch listCommits) branches),
           logged @ concat (map (branchLog listCommits fullName) branches))"
proof (induction branches arbitrary: processed logged)
  case Nil
  then show ?case by simp
next
  case (Cons b bs)
  then obtain res clientLog where call: "listCommits (Branch.Name b) = Some (res, clientLog)"
    by (cases "listCommits (Branch.Name b)") auto
  from Cons.prems have rest: "\<forall>b \<in> set bs. listCommits (Branch.Name b) \<noteq> None" by simp
  show ?case
  proof (cases res)
    case (Inl err)
    with call Cons.IH [OF rest] show ?thesis
      by (simp add: fetchedBranch_def branchLog_def)
  next
    case (Inr commits)
    with call Cons.IH [OF rest] show ?thesis
      by (simp add: fetchedBranch_def branchLog_def)
  qed
qed

lemma fetchedBranch_failed:
  "\<forall>b \<in> set branches. \<exists>err clientLog. listCommits (Branch.Name b) = Some (Inl err, clientLog) \<Longrightarrow>
   concat (map (fetchedBranch listCommits) branches) = []"
  by (induction branches) (auto simp: fetchedBranch_def)

text \<open>
  C8: when the full name splits into owner and name, the branch list is fetched and
  every commit fetch of a selected branch returns, processRepository returns the
  repository without error; its branches are exactly the selected branches whose commit
  fetch succeeded, each with its commits and in selection order, and each failed fetch
  leaves one warning in the log. When every fetch fails the repository is still
  returned, with an empty branch list.
\<close>

theorem processRepository_skips_failed_branches:
  assumes "strings_Split (FullName repo) (CHR ''/'') = [owner, repoName]"
    and "ListBranches api owner repoName = Some (Inr branches)"
    and "\<forall>b \<in> set (selectBranchesToProcess branches (DefaultBranch repo)).
           ListCommits api owner repoName (Branch.Name b) since until \<noteq> None"
  shows "processRepository api repo since until =
     Some (Inr (repo\<lparr>Branches :=
                  concat (map (fetchedBranch (\<lambda>branch. ListCommits api owner repoName branch since until))
                              (selectBranchesToProcess branches (DefaultBranch repo)))\<rparr>),
           ProcessingRepository (FullName repo) #
           concat (map (branchLog (\<lambda>branch. ListCommits api owner repoName branch since until) (FullName repo))
                       (selectBranchesToProcess branches (DefaultBranch repo)))) \<and>
     ((\<forall>b \<in> set (selectBranchesToProcess branches (DefaultBranch repo)).
         \<exists>err clientLog. ListCommits api owner repoName (Branch.Name b) since until = Some (Inl err, clientLog)) \<longrightarrow>
      (\<exists>logged. processRepository api repo since until = Some (Inr (repo\<lparr>Branches := []\<rparr>), logged)))"
proof -
  let ?lc = "\<lambda>branch. ListCommits api owner repoName branch since until"
  let ?sel = "selectBranchesToProcess branches (DefaultBranch repo)"
  have run: "processBranches ?lc (FullName repo) ?sel ([], [ProcessingRepository (FullName repo)]) =
     Some ([] @ concat (map (fetchedBranch ?lc) ?sel),
           [ProcessingRepository (FullName repo)] @ concat (map (branchLog ?lc (FullName repo)) ?sel))"
    using assms(3) by (rule processBranches_returns)
  have first: "processRepository api repo since until =
     Some (Inr (repo\<lparr>Branches := concat (map (fetchedBranch ?lc) ?sel)\<rparr>),
           ProcessingRepository (FullName repo) # concat (map (branchLog ?lc (FullName repo)) ?sel))"
    unfolding processRepository_def by (simp add: assms(1,2) run)
  have second: "\<exists>logged. processRepository api repo since until = Some (Inr (repo\<lparr>Branches := []\<rparr>), logged)"
    if "\<forall>b \<in> set ?sel. \<exists>err clientLog. ?lc (Branch.Name b) = Some (Inl err, clientLog)"
    using fetchedBranch_failed [OF that] first by simp
  from first second show ?thesis by blast
qed

theorem processRepository_skips_failed_branches_witness:
  "processRepository
     \<lparr>Repositories_ListBranches = (\<lambda>owner repo page.
         Inr ([\<lparr>github_Branch.Name = Some ''topic'', Commit = Some \<lparr>github_RepositoryCommit.SHA = Some ''c3'', Commit = None, Author = None, Stats = None\<rparr>\<rparr>,
               \<lparr>github_Branch.Name = Some ''dev'', Commit = Some \<lparr>github_RepositoryCommit.SHA = Some ''b2'', Commit = None, Author = None, Stats = None\<rparr>\<rparr>,
               \<lparr>github_Branch.Name = Some ''main'', Commit = Some \<lparr>github_RepositoryCommit.SHA = Some ''a1'', Commit = None, Author = None, Stats = None\<rparr>\<rparr>], 0)),
       Repositories_ListCommits = (\<lambda>owner repo branch since until page.
         if branch = ''dev'' then Inr ([], 0) else Inl (APIError ''timeout'')),
       Repositories_GetCommit = (\<lambda>owner repo sha. Inl (APIError ''not found''))\<rparr>
     \<lparr>Repository.Name = ''repo1'', FullName = ''owner/repo1'', URL = [], DefaultBranch = ''main'', Branches = []\<rparr> 0 1 =
   Some (Inr (\<lparr>Repository.Name = ''repo1'', FullName = ''owner/repo1'', URL = [], DefaultBranch = ''main'', Branches = [\<lparr>Branch.Name = ''dev'', SHA = ''b2'', Commits = []\<rparr>]\<rparr>),
         [ProcessingRepository ''owner/repo1'',
          CommitsWarning ''owner/repo1'' ''main''
            (FailedToListCommits ''owner'' ''repo1'' ''main'' (APIError ''timeout'')),
          BranchCommits ''dev'' 0]) \<and>
   (\<exists>logged. processRepository
     \<lparr>Repositories_ListBranches = (\<lambda>owner repo page.
         Inr ([\<lparr>github_Branch.Name = Some ''topic'', Commit = Some \<lparr>github_RepositoryCommit.SHA = Some ''c3'', Commit = None, Author = None, Stats = None\<rparr>\<rparr>,
               \<lparr>github_Branch.Name = Some ''dev'', Commit = Some \<lparr>github_RepositoryCommit.SHA = Some ''b2'', Commit = None, Author = None, Stats = None\<rparr>\<rparr>,
               \<lparr>github_Branch.Name = Some ''main'', Commit = Some \<lparr>github_RepositoryCommit.SHA = Some ''a1'', Commit = None, Author = None, Stats = None\<rparr>\<rparr>], 0)),
       Repositories_ListCommits = (\<lambda>owner repo branch since until page.
         Inl (APIError ''timeout'')),
       Repositories_GetCommit = (\<lambda>owner repo sha. Inl (APIError ''not found''))\<rparr>
     \<lparr>Repository.Name = ''repo1'', FullName = ''owner/repo1'', URL = [], DefaultBranch = ''main'', Branches = []\<rparr> 0 1 =
   Some (Inr (\<lparr>Repository.Name = ''repo1'', FullName = ''owner/repo1'', URL = [], DefaultBranch = ''main'', Branches = []\<rparr>), logged))"
  (is "processRepository ?api ?repo 0 1 = _ \<and> (\<exists>logged. processRepository ?api' ?repo 0 1 = _)")
proof -
  have s: "strings_Split (FullName ?repo) (CHR ''/'') = [''owner'', ''repo1'']" by simp
  have b: "ListBranches ?api ''owner'' ''repo1'' =
      Some (Inr [\<lparr>Branch.Name = ''topic'', SHA = ''c3'', Commits = []\<rparr>,
                 \<lparr>Branch.Name = ''dev'', SHA = ''b2'', Commits = []\<rparr>,
                 \<lparr>Branch.Name = ''main'', SHA = ''a1'', Commits = []\<rparr>])"
    by (simp add: client_eval)
  have b': "ListBranches ?api' ''owner'' ''repo1'' =
      Some (Inr [\<lparr>Branch.Name = ''topic'', SHA = ''c3'', Commits = []\<rparr>,
                 \<lparr>Branch.Name = ''dev'', SHA = ''b2'', Commits = []\<rparr>,
                 \<lparr>Branch.Name = ''main'', SHA = ''a1'', Commits = []\<rparr>])"
    by (simp add: client_eval)
  have sel: "selectBranchesToProcess
       [\<lparr>Branch.Name = ''topic'', SHA = ''c3'', Commits = []\<rparr>,
        \<lparr>Branch.Name = ''dev'', SHA = ''b2'', Commits = []\<rparr>,
        \<lparr>Branch.Name = ''main'', SHA = ''a1'', Commits = []\<rparr>] (DefaultBranch ?repo) =
       [\<lparr>Branch.Name = ''main'', SHA = ''a1'', Commits = []\<rparr>,
        \<lparr>Branch.Name = ''dev'', SHA = ''b2'', Commits = []\<rparr>]"
    by (simp add: selectBranchesToProcess_def importantBranches_def lookupBool_def)
  have c: "\<forall>b \<in> set (selectBranchesToProcess
       [\<lparr>Branch.Name = ''topic'', SHA = ''c3'', Commits = []\<rparr>,
        \<lparr>Branch.Name = ''dev'', SHA = ''b2'', Commits = []\<rparr>,
        \<lparr>Branch.Name = ''main'', SHA = ''a1'', Commits = []\<rparr>] (DefaultBranch ?repo)).
      ListCommits ?api ''owner'' ''repo1'' (Branch.Name b) 0 1 \<noteq> None"
    unfolding sel by (simp add: client_eval)
  have c': "\<forall>b \<in> set (selectBranchesToProcess
       [\<lparr>Branch.Name = ''topic'', SHA = ''c3'', Commits = []\<rparr>,
        \<lparr>Branch.Name = ''dev'', SHA = ''b2'', Commits = []\<rparr>,
        \<lparr>Branch.Name = ''main'', SHA = ''a1'', Commits = []\<rparr>] (DefaultBranch ?repo)).
      ListCommits ?api' ''owner'' ''repo1'' (Branch.Name b) 0 1 \<noteq> None"
    unfolding sel by (simp add: client_eval)
  have first: "processRepository ?api ?repo 0 1 =
   Some (Inr (\<lparr>Repository.Name = ''repo1'', FullName = ''owner/repo1'', URL = [], DefaultBranch = ''main'', Branches = [\<lparr>Branch.Name = ''dev'', SHA = ''b2'', Commits = []\<rparr>]\<rparr>),
         [ProcessingRepository ''owner/repo1'',
          CommitsWarning ''owner/repo1'' ''main''
            (FailedToListCommits ''owner'' ''repo1'' ''main'' (APIError ''timeout'')),
          BranchCommits ''dev'' 0])"
    using processRepository_skips_failed_branches [OF s b c, THEN conjunct1]
    unfolding sel by (simp add: fetchedBranch_def branchLog_def client_eval)
  have second: "\<exists>logged. processRepository ?api' ?repo 0 1 = Some (Inr (\<lparr>Repository.Name = ''repo1'', FullName = ''owner/repo1'', URL = [], DefaultBranch = ''main'', Branches = []\<rparr>), logged)"
    using processRepository_skips_failed_branches [OF s b' c', THEN conjunct2]
    unfolding sel by (simp add: client_eval)
  from first second show ?thesis by blast
qed

lemma strings_Split_nonempty: "strings_Split s sep \<noteq> []"
  by (induction s) (auto split: list.splits)

lemma strings_Split_length: "length (strings_Split s sep) = Suc (count_list s sep)"
  by (induction s) (auto split: list.splits simp: strings_Split_nonempty)

lemma strings_Split_no_sep: "sep \<notin> set s \<Longrightarrow> strings_Split s sep = [s]"
  by (induction s) auto

lemma strings_Split_one_sep:
  "sep \<notin> set a \<Longrightarrow> sep \<notin> set b \<Longrightarrow> strings_Split (a @ sep # b) sep = [a, b]"
  by (induction a) (auto simp: strings_Split_no_sep)

lemma ListBranches_error:
  "ListBranches api owner repoName = Some (Inl err) \<Longrightarrow>
   \<exists>cause. err = FailedToListBranches owner repoName cause"
  by (auto simp: ListBranches_def split: option.splits sum.splits)

text \<open>
  C9: processRepository answers the invalid-name error exactly when the full name does
  not contain exactly one \<open>/\<close>. A full name \<open>owner/name\<close> whose two segments contain no
  \<open>/\<close> is accepted also when a segment is empty, and the two segments are the owner and
  the name given to ListBranches and ListCommits.
\<close>

theorem processRepository_name_check:
  "(count_list (FullName repo) (CHR ''/'') \<noteq> 1 \<longleftrightarrow>
      (\<exists>logged. processRepository api repo since until =
         Some (Inl (InvalidRepositoryNameFormat (FullName repo)), logged))) \<and>
   (\<forall>owner repoName.
      FullName repo = owner @ ''/'' @ repoName \<and> CHR ''/'' \<notin> set owner \<and> CHR ''/'' \<notin> set repoName \<longrightarrow>
      processRepository api repo since until =
        (case ListBranches api owner repoName of
           None \<Rightarrow> None
         | Some (Inl err) \<Rightarrow> Some (Inl err, [ProcessingRepository (FullName repo)])
         | Some (Inr branches) \<Rightarrow>
             (case processBranches (\<lambda>branch. ListCommits api owner repoName branch since until)
                     (FullName repo)
                     (selectBranchesToProcess branches (DefaultBranch repo))
                     ([], [ProcessingRepository (FullName repo)]) of
                None \<Rightarrow> None
              | Some (processedBranches, logged) \<Rightarrow>
                  Some (Inr (repo\<lparr>Branches := processedBranches\<rparr>), logged))))"
proof -
  let ?invalid = "\<exists>logged. processRepository api repo since until =
         Some (Inl (InvalidRepositoryNameFormat (FullName repo)), logged)"
  have two: "processRepository api repo since until =
        (case ListBranches api owner repoName of
           None \<Rightarrow> None
         | Some (Inl err) \<Rightarrow> Some (Inl err, [ProcessingRepository (FullName repo)])
         | Some (Inr branches) \<Rightarrow>
             (case processBranches (\<lambda>branch. ListCommits api owner repoName branch since until)
                     (FullName repo)
                     (selectBranchesToProcess branches (DefaultBranch repo))
                     ([], [ProcessingRepository (FullName repo)]) of
                None \<Rightarrow> None
              | Some (processedBranches, logged) \<Rightarrow>
                  Some (Inr (repo\<lparr>Branches := processedBranches\<rparr>), logged)))"
    if "strings_Split (FullName repo) (CHR ''/'') = [owner, repoName]" for owner repoName
    unfolding processRepository_def by (simp add: that)
  have a: ?invalid if "count_list (FullName repo) (CHR ''/'') \<noteq> 1"
  proof -
    have "length (strings_Split (FullName repo) (CHR ''/'')) \<noteq> 2"
      using that by (simp add: strings_Split_length)
    then show ?thesis
      unfolding processRepository_def
      by (auto split: list.splits)
  qed
  have b: "\<not> ?invalid" if "count_list (FullName repo) (CHR ''/'') = 1"
  proof -
    have "length (strings_Split (FullName repo) (CHR ''/'')) = 2"
      using that by (simp add: strings_Split_length)
    then obtain owner repoName where sp: "strings_Split (FullName repo) (CHR ''/'') = [owner, repoName]"
      by (auto simp: length_Suc_conv numeral_2_eq_2)
    show ?thesis
      using ListBranches_error [of api owner repoName]
      by (auto simp: two [OF sp] split: option.splits sum.splits prod.splits)
  qed
  have c: "strings_Split (FullName repo) (CHR ''/'') = [owner, repoName]"
    if "FullName repo = owner @ ''/'' @ repoName" "CHR ''/'' \<notin> set owner" "CHR ''/'' \<notin> set repoName"
    for owner repoName
    using that by (simp add: strings_Split_one_sep)
  from a b have "count_list (FullName repo) (CHR ''/'') \<noteq> 1 \<longleftrightarrow> ?invalid" by blast
  moreover note two c
  ultimately show ?thesis by blast
qed

theorem processRepository_name_check_witness:
  "processRepository
     \<lparr>Repositories_ListBranches = (\<lambda>owner repo page. Inl (APIError ''not found'')),
       Repositories_ListCommits = (\<lambda>owner repo branch since until page. Inl (APIError ''not found'')),
       Repositories_GetCommit = (\<lambda>owner repo sha. Inl (APIError ''not found''))\<rparr>
     \<lparr>Repository.Name = ''repo1'', FullName = ''/'', URL = [], DefaultBranch = ''main'', Branches = []\<rparr> 0 1 =
   Some (Inl (FailedToListBranches [] [] (APIError ''not found'')), [ProcessingRepository ''/'']) \<and>
   processRepository
     \<lparr>Repositories_ListBranches = (\<lambda>owner repo page. Inl (APIError ''not found'')),
       Repositories_ListCommits = (\<lambda>owner repo branch since until page. Inl (APIError ''not found'')),
       Repositories_GetCommit = (\<lambda>owner repo sha. Inl (APIError ''not found''))\<rparr>
     \<lparr>Repository.Name = ''repo1'', FullName = ''owner/'', URL = [], DefaultBranch = ''main'', Branches = []\<rparr> 0 1 =
   Some (Inl (FailedToListBranches ''owner'' [] (APIError ''not found'')), [ProcessingRepository ''owner/'']) \<and>
   (\<exists>logged. processRepository
     \<lparr>Repositories_ListBranches = (\<lambda>owner repo page. Inl (APIError ''not found'')),
       Repositories_ListCommits = (\<lambda>owner repo branch since until page. Inl (APIError ''not found'')),
       Repositories_GetCommit = (\<lambda>owner repo sha. Inl (APIError ''not found''))\<rparr>
     \<lparr>Repository.Name = ''repo1'', FullName = ''owner/repo1/extra'', URL = [], DefaultBranch = ''main'', Branches = []\<rparr> 0 1 =
   Some (Inl (InvalidRepositoryNameFormat ''owner/repo1/extra''), logged)) \<and>
   (\<exists>logged. processRepository
     \<lparr>Repositories_ListBranches = (\<lambda>owner repo page. Inl (APIError ''not found'')),
       Repositories_ListCommits = (\<lambda>owner repo branch since until page. Inl (APIError ''not found'')),
       Repositories_GetCommit = (\<lambda>owner repo sha. Inl (APIError ''not found''))\<rparr>
     \<lparr>Repository.Name = ''repo1'', FullName = ''repo1'', URL = [], DefaultBranch = ''main'', Branches = []\<rparr> 0 1 =
   Some (Inl (InvalidRepositoryNameFormat ''repo1''), logged))"
  using processRepository_name_check [of "\<lparr>Repository.Name = ''repo1'', FullName = ''/'', URL = [], DefaultBranch = ''main'', Branches = []\<rparr>"
      "\<lparr>Repositories_ListBranches = (\<lambda>owner repo page. Inl (APIError ''not found'')),
       Repositories_ListCommits = (\<lambda>owner repo branch since until page. Inl (APIError ''not found'')),
       Repositories_GetCommit = (\<lambda>owner repo sha. Inl (APIError ''not found''))\<rparr>" 0 1,
      THEN conjunct2, rule_format, of "[]" "[]"]
    processRepository_name_check [of "\<lparr>Repository.Name = ''repo1'', FullName = ''owner/'', URL = [], DefaultBranch = ''main'', Branches = []\<rparr>"
      "\<lparr>Repositories_ListBranches = (\<lambda>owner repo page. Inl (APIError ''not found'')),
       Repositories_ListCommits = (\<lambda>owner repo branch since until page. Inl (APIError ''not found'')),
       Repositories_GetCommit = (\<lambda>owner repo sha. Inl (APIError ''not found''))\<rparr>" 0 1,
      THEN conjunct2, rule_format, of "''owner''" "[]"]
    processRepository_name_check [of "\<lparr>Repository.Name = ''repo1'', FullName = ''owner/repo1/extra'', URL = [], DefaultBranch = ''main'', Branches = []\<rparr>"
      "\<lparr>Repositories_ListBranches = (\<lambda>owner repo page. Inl (APIError ''not found'')),
       Repositories_ListCommits = (\<lambda>owner repo branch since until page. Inl (APIError ''not found'')),
       Repositories_GetCommit = (\<lambda>owner repo sha. Inl (APIError ''not found''))\<rparr>" 0 1,
      THEN conjunct1]
    processRepository_name_check [of "\<lparr>Repository.Name = ''repo1'', FullName = ''repo1'', URL = [], DefaultBranch = ''main'', Branches = []\<rparr>"
      "\<lparr>Repositories_ListBranches = (\<lambda>owner repo page. Inl (APIError ''not found'')),
       Repositories_ListCommits = (\<lambda>owner repo branch since until page. Inl (APIError ''not found'')),
       Repositories_GetCommit = (\<lambda>owner repo sha. Inl (APIError ''not found''))\<rparr>" 0 1,
      THEN conjunct1]
  by (simp add: client_eval)

section \<open>Properties of the fetch coordinator\<close>

subsection \<open>The invariant\<close>

lemma sum_list_update_mset:
  fixes f :: "'a \<Rightarrow> 'b::comm_monoid_add"
  assumes "i < length xs"
  shows "sum_list (map f (xs[i := y])) + f (xs ! i) = sum_list (map f xs) + f y"
proof -
  have xs: "xs = take i xs @ (xs ! i) # drop (Suc i) xs"
    using assms by (rule id_take_nth_drop)
  have "sum_list (map f (xs[i := y])) = sum_list (map f (take i xs)) + f y + sum_list (map f (drop (Suc i) xs))"
    using assms by (simp add: upd_conv_take_nth_drop add.assoc)
  moreover have "sum_list (map f xs) = sum_list (map f (take i xs)) + f (xs ! i) + sum_list (map f (drop (Suc i) xs))"
    by (subst xs) (simp add: add.assoc)
  ultimately show ?thesis by (simp add: ac_simps)
qed

lemma pending_update_same:
  assumes "i < length ws" "pendingOutcome api since until (ws ! i) = pendingOutcome api since until w"
  shows "sum_list (map (pendingOutcome api since until) (ws[i := w])) =
         sum_list (map (pendingOutcome api since until) ws)"
  using sum_list_update_mset [OF assms(1), of "pendingOutcome api since until" w] assms(2) by simp

lemma pending_update_gain:
  assumes "i < length ws" "pendingOutcome api since until (ws ! i) = {#}"
  shows "sum_list (map (pendingOutcome api since until) (ws[i := w])) =
         sum_list (map (pendingOutcome api since until) ws) + pendingOutcome api since until w"
  using sum_list_update_mset [OF assms(1), of "pendingOutcome api since until" w] assms(2) by simp

lemma pending_update_lose:
  assumes "i < length ws" "pendingOutcome api since until w = {#}"
  shows "sum_list (map (pendingOutcome api since until) (ws[i := w])) + pendingOutcome api since until (ws ! i) =
         sum_list (map (pendingOutcome api since until) ws)"
  using sum_list_update_mset [OF assms(1), of "pendingOutcome api since until" w] assms(2) by simp

lemma all_Finished_update:
  "i < length ws \<Longrightarrow> (\<forall>x \<in> set (ws[i := w]). x = Finished) \<Longrightarrow> w = Finished"
  by (meson set_update_memI)

lemma not_all_Finished:
  "i < length ws \<Longrightarrow> ws ! i \<noteq> Finished \<Longrightarrow> \<not> (\<forall>x \<in> set ws. x = Finished)"
  by (meson nth_mem)

lemma in_set_updateD:
  "x \<in> set (ws[i := w]) \<Longrightarrow> x = w \<or> x \<in> set ws"
  using set_update_subset_insert [of ws i w] by auto

lemma sum_list_replicate_empty: "sum_list (replicate n ({#} :: 'a multiset)) = {#}"
  by (induction n) simp_all

lemma coordinatorInv_start: "coordinatorInv api since until repos (startCoordinator repos)"
  by (cases repos) (auto simp: coordinatorInv_def startCoordinator_def outcomes_def pendingOutcome_def
        maxWorkers_def sum_list_replicate_empty)


lemma coordinatorInv_step:
  assumes "coordinatorStep api since until s s'" and "coordinatorInv api since until repos s"
  shows "coordinatorInv api since until repos s'"
  using assms
proof (cases rule: coordinatorStep.cases)
  case (send repo rest)
  with assms(2) show ?thesis
    by (auto simp: coordinatorInv_def outcomes_def)
next
  case closeRepos
  with assms(2) show ?thesis
    by (auto simp: coordinatorInv_def outcomes_def)
next
  case (receive i repo rest)
  have "pendingOutcome api since until (workers s ! i) = {#}"
    using receive by (simp add: pendingOutcome_def)
  note upd = pending_update_gain [OF receive(2) this, of "Processing repo"]
  have nf: "\<not> (\<forall>x \<in> set ((workers s)[i := Processing repo]). x = Finished)"
    using all_Finished_update [OF receive(2), of "Processing repo"] by blast
  have nf0: "\<not> (\<forall>x \<in> set (workers s). x = Finished)"
    using not_all_Finished [OF receive(2)] receive(3) by simp
  show ?thesis
    using assms(2) receive nf0
    unfolding coordinatorInv_def outcomes_def
    by (auto simp: upd nf pendingOutcome_def dest!: in_set_updateD)
next
  case (processed i repo processedRepo entries)
  have "pendingOutcome api since until (workers s ! i) =
        pendingOutcome api since until (SendingResult processedRepo)"
    using processed by (simp add: pendingOutcome_def workerOutcome_def)
  note upd = pending_update_same [OF processed(2) this]
  have nf: "\<not> (\<forall>x \<in> set ((workers s)[i := SendingResult processedRepo]). x = Finished)"
    using all_Finished_update [OF processed(2), of "SendingResult processedRepo"] by blast
  have nf0: "\<not> (\<forall>x \<in> set (workers s). x = Finished)"
    using not_all_Finished [OF processed(2)] processed(3) by simp
  show ?thesis
    using assms(2) processed nf0
    unfolding coordinatorInv_def outcomes_def
    by (auto simp: upd nf dest!: in_set_updateD)
next
  case (failed i repo err entries)
  have "pendingOutcome api since until (workers s ! i) =
        pendingOutcome api since until (SendingError (RepositoryError (FullName repo) err))"
    using failed by (simp add: pendingOutcome_def workerOutcome_def)
  note upd = pending_update_same [OF failed(2) this]
  have nf: "\<not> (\<forall>x \<in> set ((workers s)[i := SendingError (RepositoryError (FullName repo) err)]). x = Finished)"
    using all_Finished_update [OF failed(2), of "SendingError (RepositoryError (FullName repo) err)"] by blast
  have nf0: "\<not> (\<forall>x \<in> set (workers s). x = Finished)"
    using not_all_Finished [OF failed(2)] failed(3) by simp
  show ?thesis
    using assms(2) failed nf0
    unfolding coordinatorInv_def outcomes_def
    by (auto simp: upd nf dest!: in_set_updateD)
next
  case (sendResult i processedRepo)
  have "pendingOutcome api since until Receiving = {#}"
    by (simp add: pendingOutcome_def)
  note lose = pending_update_lose [OF sendResult(2) this]
  have pend: "pendingOutcome api since until (workers s ! i) = {#Some (Inr processedRepo)#}"
    using sendResult by (simp add: pendingOutcome_def)
  have upd: "sum_list (map (pendingOutcome api since until) (workers s)) =
             sum_list (map (pendingOutcome api since until) ((workers s)[i := Receiving])) + {#Some (Inr processedRepo)#}"
    using lose by (simp only: pend)
  have nf: "\<not> (\<forall>x \<in> set ((workers s)[i := Receiving]). x = Finished)"
    using all_Finished_update [OF sendResult(2), of Receiving] by blast
  have nf0: "\<not> (\<forall>x \<in> set (workers s). x = Finished)"
    using not_all_Finished [OF sendResult(2)] sendResult(3) by simp
  show ?thesis
    using assms(2) sendResult nf0
    unfolding coordinatorInv_def outcomes_def
    by (auto simp: upd nf dest!: in_set_updateD)
next
  case (sendError i err)
  have "pendingOutcome api since until Receiving = {#}"
    by (simp add: pendingOutcome_def)
  note lose = pending_update_lose [OF sendError(2) this]
  have pend: "pendingOutcome api since until (workers s ! i) = {#Some (Inl err)#}"
    using sendError by (simp add: pendingOutcome_def)
  have upd: "sum_list (map (pendingOutcome api since until) (workers s)) =
             sum_list (map (pendingOutcome api since until) ((workers s)[i := Receiving])) + {#Some (Inl err)#}"
    using lose by (simp only: pend)
  have nf: "\<not> (\<forall>x \<in> set ((workers s)[i := Receiving]). x = Finished)"
    using all_Finished_update [OF sendError(2), of Receiving] by blast
  have nf0: "\<not> (\<forall>x \<in> set (workers s). x = Finished)"
    using not_all_Finished [OF sendError(2)] sendError(3) by simp
  show ?thesis
    using assms(2) sendError nf0
    unfolding coordinatorInv_def outcomes_def
    by (auto simp: upd nf dest!: in_set_updateD)
next
  case (workerDone i)
  have "pendingOutcome api since until (workers s ! i) = pendingOutcome api since until Finished"
    using workerDone by (simp add: pendingOutcome_def)
  note upd = pending_update_same [OF workerDone(2) this]
  have nf0: "\<not> (\<forall>x \<in> set (workers s). x = Finished)"
    using not_all_Finished [OF workerDone(2)] workerDone(3) by simp
  show ?thesis
    using assms(2) workerDone nf0
    unfolding coordinatorInv_def outcomes_def
    by (auto simp: upd dest!: in_set_updateD)
next
  case closeResults
  with assms(2) show ?thesis
    by (auto simp: coordinatorInv_def outcomes_def)
next
  case closeErrors
  with assms(2) show ?thesis
    by (auto simp: coordinatorInv_def outcomes_def)
next
  case (collectResult repo rest)
  with assms(2) show ?thesis
    by (auto simp: coordinatorInv_def outcomes_def)
next
  case resultsDrained
  with assms(2) show ?thesis
    by (auto simp: coordinatorInv_def outcomes_def)
next
  case (collectError err rest)
  with assms(2) show ?thesis
    by (auto simp: coordinatorInv_def outcomes_def)
next
  case errorsDrained
  with assms(2) show ?thesis
    by (auto simp: coordinatorInv_def outcomes_def)
qed

lemma coordinatorInv_reachable:
  assumes "(coordinatorStep api since until)\<^sup>*\<^sup>* (startCoordinator repos) s"
  shows "coordinatorInv api since until repos s"
  using assms
proof (induction rule: rtranclp_induct)
  case base
  show ?case by (rule coordinatorInv_start)
next
  case (step s s')
  from step(2) step(3) show ?case by (rule coordinatorInv_step)
qed

lemma pending_all_Finished:
  "\<forall>w \<in> set ws. w = Finished \<Longrightarrow> sum_list (map (pendingOutcome api since until) ws) = {#}"
  by (induction ws) (simp_all add: pendingOutcome_def)

lemma coordinatorInv_done:
  assumes "coordinatorInv api since until repos s" and "collectionDone s"
  shows "image_mset (workerOutcome api since until) (mset repos) =
           image_mset (\<lambda>r. Some (Inr r)) (mset (processedRepos s)) +
           image_mset (\<lambda>e. Some (Inl e)) (mset (errors s))"
proof -
  from assms have fin: "\<forall>w \<in> set (workers s). w = Finished"
    and empty: "resultsChan s = []" "errorsChan s = []"
    by (auto simp: coordinatorInv_def collectionDone_def)
  with assms(1) have "toSend s = []" "reposChan s = []"
    by (auto simp: coordinatorInv_def)
  with assms(1) empty pending_all_Finished [OF fin, of api since until] show ?thesis
    by (simp add: coordinatorInv_def outcomes_def)
qed

lemma coordinatorInv_done_count:
  assumes "coordinatorInv api since until repos s" and "collectionDone s"
  shows "length (processedRepos s) + length (errors s) = length repos"
proof -
  have "size (image_mset (workerOutcome api since until) (mset repos)) =
        size (image_mset (\<lambda>r. Some (Inr r)) (mset (processedRepos s)) +
              image_mset (\<lambda>e. Some (Inl e)) (mset (errors s)))"
    by (simp only: coordinatorInv_done [OF assms])
  then show ?thesis by simp
qed

lemma coordinatorStep_measure:
  assumes "coordinatorStep api since until s s'"
  shows "coordinatorMeasure s' < coordinatorMeasure s"
  using assms
proof (cases rule: coordinatorStep.cases)
  case (receive i repo rest)
  from sum_list_update_mset [OF receive(2), of workerWeight "Processing repo"] receive
  show ?thesis by (simp add: coordinatorMeasure_def workerWeight_def)
next
  case (processed i repo processedRepo entries)
  from sum_list_update_mset [OF processed(2), of workerWeight "SendingResult processedRepo"] processed
  show ?thesis by (simp add: coordinatorMeasure_def workerWeight_def)
next
  case (failed i repo err entries)
  from sum_list_update_mset [OF failed(2), of workerWeight "SendingError (RepositoryError (FullName repo) err)"] failed
  show ?thesis by (simp add: coordinatorMeasure_def workerWeight_def)
next
  case (sendResult i processedRepo)
  from sum_list_update_mset [OF sendResult(2), of workerWeight Receiving] sendResult
  show ?thesis by (simp add: coordinatorMeasure_def workerWeight_def)
next
  case (sendError i err)
  from sum_list_update_mset [OF sendError(2), of workerWeight Receiving] sendError
  show ?thesis by (simp add: coordinatorMeasure_def workerWeight_def)
next
  case (workerDone i)
  from sum_list_update_mset [OF workerDone(2), of workerWeight Finished] workerDone
  show ?thesis by (simp add: coordinatorMeasure_def workerWeight_def)
qed (simp_all add: coordinatorMeasure_def)

subsection \<open>Progress and return\<close>

lemma pending_size:
  assumes "i < length ws" and "ws ! i \<noteq> Receiving" and "ws ! i \<noteq> Finished"
  shows "0 < size (sum_list (map (pendingOutcome api since until) ws))"
proof -
  have "size (pendingOutcome api since until (ws ! i)) = 1"
    using assms(2,3) by (cases "ws ! i") (simp_all add: pendingOutcome_def)
  moreover have "size (sum_list (map (pendingOutcome api since until) (ws[i := Receiving])) +
                       pendingOutcome api since until (ws ! i)) =
                 size (sum_list (map (pendingOutcome api since until) ws) +
                       pendingOutcome api since until Receiving)"
    by (simp only: sum_list_update_mset [OF assms(1)])
  ultimately show ?thesis by (simp add: pendingOutcome_def)
qed

lemma coordinatorInv_size:
  assumes "coordinatorInv api since until repos s"
  shows "length (toSend s) + length (reposChan s) +
         size (sum_list (map (pendingOutcome api since until) (workers s))) +
         length (resultsChan s) + length (processedRepos s) +
         length (errorsChan s) + length (errors s) = capacity s"
proof -
  from assms have "size (outcomes api since until s) =
                   size (image_mset (workerOutcome api since until) (mset repos))"
    and "capacity s = length repos"
    by (simp_all add: coordinatorInv_def)
  then show ?thesis by (simp add: outcomes_def)
qed

lemma coordinator_progress:
  assumes inv: "coordinatorInv api since until repos s"
    and nd: "\<not> collectionDone s"
    and ret: "\<forall>repo \<in> set repos. processRepository api repo since until \<noteq> None"
  shows "\<exists>s'. coordinatorStep api since until s s'"
proof (cases "toSend s")
  case (Cons repo rest)
  with coordinatorInv_size [OF inv] have "length (reposChan s) < capacity s" by simp
  with Cons show ?thesis by (blast intro: coordinatorStep.send)
next
  case Nil
  show ?thesis
  proof (cases "reposChanClosed s")
    case False
    with Nil show ?thesis by (blast intro: coordinatorStep.closeRepos)
  next
    case True
    show ?thesis
    proof (cases "\<forall>w \<in> set (workers s). w = Finished")
      case False
      then obtain i where i: "i < length (workers s)" and nf: "workers s ! i \<noteq> Finished"
        by (auto simp: in_set_conv_nth)
      show ?thesis
      proof (cases "workers s ! i")
        case Receiving
        show ?thesis
        proof (cases "reposChan s")
          case Nil
          with i Receiving True show ?thesis by (blast intro: coordinatorStep.workerDone)
        next
          case (Cons repo rest)
          with i Receiving show ?thesis by (blast intro: coordinatorStep.receive)
        qed
      next
        case (Processing repo)
        with i have "Processing repo \<in> set (workers s)" by (metis nth_mem)
        with inv have "repo \<in> set repos" by (simp add: coordinatorInv_def)
        with ret obtain res entries where call: "processRepository api repo since until = Some (res, entries)"
          by (cases "processRepository api repo since until") auto
        show ?thesis
        proof (cases res)
          case (Inl err)
          with call i Processing show ?thesis by (blast intro: coordinatorStep.failed)
        next
          case (Inr processedRepo)
          with call i Processing show ?thesis by (blast intro: coordinatorStep.processed)
        qed
      next
        case (SendingResult processedRepo)
        with pending_size [OF i, of api since until] coordinatorInv_size [OF inv]
        have "length (resultsChan s) < capacity s" by simp
        with i SendingResult show ?thesis by (blast intro: coordinatorStep.sendResult)
      next
        case (SendingError err)
        with pending_size [OF i, of api since until] coordinatorInv_size [OF inv]
        have "length (errorsChan s) < capacity s" by simp
        with i SendingError show ?thesis by (blast intro: coordinatorStep.sendError)
      next
        case Finished
        with nf show ?thesis by simp
      qed
    next
      case fin: True
      show ?thesis
      proof (cases "resultsChanClosed s")
        case False
        with fin show ?thesis by (blast intro: coordinatorStep.closeResults)
      next
        case rc: True
        show ?thesis
        proof (cases "errorsChanClosed s")
          case False
          with rc show ?thesis by (blast intro: coordinatorStep.closeErrors)
        next
          case ec: True
          show ?thesis
          proof (cases "resultsChanNil s")
            case False
            show ?thesis
            proof (cases "resultsChan s")
              case Nil
              with False rc show ?thesis by (blast intro: coordinatorStep.resultsDrained)
            next
              case (Cons repo rest)
              with False show ?thesis by (blast intro: coordinatorStep.collectResult)
            qed
          next
            case True
            with nd have en: "\<not> errorsChanNil s" by (simp add: collectionDone_def)
            show ?thesis
            proof (cases "errorsChan s")
              case Nil
              with en ec show ?thesis by (blast intro: coordinatorStep.errorsDrained)
            next
              case (Cons err rest)
              with en show ?thesis by (blast intro: coordinatorStep.collectError)
            qed
          qed
        qed
      qed
    qed
  qed
qed

lemma coordinator_returns:
  assumes "coordinatorInv api since until repos s"
    and ret: "\<forall>repo \<in> set repos. processRepository api repo since until \<noteq> None"
  shows "\<exists>s'. (coordinatorStep api since until)\<^sup>*\<^sup>* s s' \<and> collectionDone s'"
  using assms(1)
proof (induction "coordinatorMeasure s" arbitrary: s rule: less_induct)
  case less
  show ?case
  proof (cases "collectionDone s")
    case True
    then show ?thesis by blast
  next
    case False
    from coordinator_progress [OF less.prems False ret]
    obtain s1 where step: "coordinatorStep api since until s s1" by blast
    have inv1: "coordinatorInv api since until repos s1"
      using step less.prems by (rule coordinatorInv_step)
    have "coordinatorMeasure s1 < coordinatorMeasure s"
      using step by (rule coordinatorStep_measure)
    from less.hyps [OF this inv1]
    obtain s' where "(coordinatorStep api since until)\<^sup>*\<^sup>* s1 s'" "collectionDone s'" by blast
    with step show ?thesis by (blast intro: converse_rtranclp_into_rtranclp)
  qed
qed


lemma coordinatorStep_to:
  "coordinatorStep api since until s t \<Longrightarrow> s' = t \<Longrightarrow> coordinatorStep api since until s s'"
  by simp

lemmas coordinator_eval = processRepository_def client_eval selectBranchesToProcess_def importantBranches_def
  lookupBool_def


text \<open>
  C6: in every state the coordinator can reach, whatever the interleaving: when the
  collecting loop has ended, the successes and the failures are exactly the outcomes of
  the input repositories, one per repository (a processed repository, or the error of
  processRepository wrapped with the repository's full name), so their numbers add up to
  the number of input repositories. Every step decreases a measure, so no run is
  infinite. When every call of processRepository returns, a state in which the loop has
  not ended has a next step, and the loop does end: a failure of one repository is one
  more outcome and never stops the batch.
\<close>

theorem coordinator_collects_every_repository:
  assumes "(coordinatorStep api since until)\<^sup>*\<^sup>* (startCoordinator repos) s"
  shows "(collectionDone s \<longrightarrow>
            length (processedRepos s) + length (errors s) = length repos \<and>
            image_mset (workerOutcome api since until) (mset repos) =
              image_mset (\<lambda>r. Some (Inr r)) (mset (processedRepos s)) +
              image_mset (\<lambda>e. Some (Inl e)) (mset (errors s))) \<and>
         (\<forall>s'. coordinatorStep api since until s s' \<longrightarrow> coordinatorMeasure s' < coordinatorMeasure s) \<and>
         ((\<forall>repo \<in> set repos. processRepository api repo since until \<noteq> None) \<longrightarrow>
            (\<not> collectionDone s \<longrightarrow> (\<exists>s'. coordinatorStep api since until s s')) \<and>
            (\<exists>s'. (coordinatorStep api since until)\<^sup>*\<^sup>* s s' \<and> collectionDone s'))"
proof -
  have inv: "coordinatorInv api since until repos s"
    using assms by (rule coordinatorInv_reachable)
  show ?thesis
    using coordinatorInv_done_count [OF inv] coordinatorInv_done [OF inv]
      coordinatorStep_measure [of api since until s]
      coordinator_progress [OF inv] coordinator_returns [OF inv]
    by blast
qed

theorem coordinator_collects_every_repository_witness:
  "(coordinatorStep
      \<lparr>Repositories_ListBranches = (\<lambda>owner repo page. Inr ([], 0)),
       Repositories_ListCommits = (\<lambda>owner repo branch since until page. Inr ([], 0)),
       Repositories_GetCommit = (\<lambda>owner repo sha. Inl (APIError ''not found''))\<rparr> 0 1)\<^sup>*\<^sup>*
     (startCoordinator
        [\<lparr>Repository.Name = ''repo1'', FullName = ''repo1'', URL = [], DefaultBranch = ''main'', Branches = []\<rparr>,
         \<lparr>Repository.Name = ''repo2'', FullName = ''owner/repo2'', URL = [], DefaultBranch = ''main'', Branches = []\<rparr>])
     \<lparr>capacity = 2, toSend = [], reposChan = [], reposChanClosed = True,
       workers = [Finished, Finished], resultsChan = [], resultsChanClosed = True,
       errorsChan = [], errorsChanClosed = True, resultsChanNil = True, errorsChanNil = True,
       processedRepos = [\<lparr>Repository.Name = ''repo2'', FullName = ''owner/repo2'', URL = [], DefaultBranch = ''main'', Branches = []\<rparr>], errors = [RepositoryError ''repo1'' (InvalidRepositoryNameFormat ''repo1'')], logOutput = [ProcessingRepository ''owner/repo2'', ProcessingRepository ''repo1'']\<rparr> \<and>
   collectionDone
     \<lparr>capacity = 2, toSend = [], reposChan = [], reposChanClosed = True,
       workers = [Finished, Finished], resultsChan = [], resultsChanClosed = True,
       errorsChan = [], errorsChanClosed = True, resultsChanNil = True, errorsChanNil = True,
       processedRepos = [\<lparr>Repository.Name = ''repo2'', FullName = ''owner/repo2'', URL = [], DefaultBranch = ''main'', Branches = []\<rparr>], errors = [RepositoryError ''repo1'' (InvalidRepositoryNameFormat ''repo1'')], logOutput = [ProcessingRepository ''owner/repo2'', ProcessingRepository ''repo1'']\<rparr> \<and>
   length (processedRepos
     \<lparr>capacity = 2, toSend = [], reposChan = [], reposChanClosed = True,
       workers = [Finished, Finished], resultsChan = [], resultsChanClosed = True,
       errorsChan = [], errorsChanClosed = True, resultsChanNil = True, errorsChanNil = True,
       processedRepos = [\<lparr>Repository.Name = ''repo2'', FullName = ''owner/repo2'', URL = [], DefaultBranch = ''main'', Branches = []\<rparr>], errors = [RepositoryError ''repo1'' (InvalidRepositoryNameFormat ''repo1'')], logOutput = [ProcessingRepository ''owner/repo2'', ProcessingRepository ''repo1'']\<rparr>) +
   length (errors
     \<lparr>capacity = 2, toSend = [], reposChan = [], reposChanClosed = True,
       workers = [Finished, Finished], resultsChan = [], resultsChanClosed = True,
       errorsChan = [], errorsChanClosed = True, resultsChanNil = True, errorsChanNil = True,
       processedRepos = [\<lparr>Repository.Name = ''repo2'', FullName = ''owner/repo2'', URL = [], DefaultBranch = ''main'', Branches = []\<rparr>], errors = [RepositoryError ''repo1'' (InvalidRepositoryNameFormat ''repo1'')], logOutput = [ProcessingRepository ''owner/repo2'', ProcessingRepository ''repo1'']\<rparr>) =
   length
        [\<lparr>Repository.Name = ''repo1'', FullName = ''repo1'', URL = [], DefaultBranch = ''main'', Branches = []\<rparr>,
         \<lparr>Repository.Name = ''repo2'', FullName = ''owner/repo2'', URL = [], DefaultBranch = ''main'', Branches = []\<rparr>] \<and>
   processRepository
      \<lparr>Repositories_ListBranches = (\<lambda>owner repo page. Inr ([], 0)),
       Repositories_ListCommits = (\<lambda>owner repo branch since until page. Inr ([], 0)),
       Repositories_GetCommit = (\<lambda>owner repo sha. Inl (APIError ''not found''))\<rparr>
      \<lparr>Repository.Name = ''repo1'', FullName = ''repo1'', URL = [], DefaultBranch = ''main'', Branches = []\<rparr> 0 1 =
     Some (Inl (InvalidRepositoryNameFormat ''repo1''), [ProcessingRepository ''repo1'']) \<and>
   processRepository
      \<lparr>Repositories_ListBranches = (\<lambda>owner repo page. Inr ([], 0)),
       Repositories_ListCommits = (\<lambda>owner repo branch since until page. Inr ([], 0)),
       Repositories_GetCommit = (\<lambda>owner repo sha. Inl (APIError ''not found''))\<rparr>
      \<lparr>Repository.Name = ''repo2'', FullName = ''owner/repo2'', URL = [], DefaultBranch = ''main'', Branches = []\<rparr> 0 1 =
     Some (Inr \<lparr>Repository.Name = ''repo2'', FullName = ''owner/repo2'', URL = [], DefaultBranch = ''main'', Branches = []\<rparr>,
           [ProcessingRepository ''owner/repo2''])"
proof -
  let ?api = "\<lparr>Repositories_ListBranches = (\<lambda>owner repo page. Inr ([], 0)),
       Repositories_ListCommits = (\<lambda>owner repo branch since until page. Inr ([], 0)),
       Repositories_GetCommit = (\<lambda>owner repo sha. Inl (APIError ''not found''))\<rparr>"
  let ?bad = "\<lparr>Repository.Name = ''repo1'', FullName = ''repo1'', URL = [], DefaultBranch = ''main'', Branches = []\<rparr>"
  let ?good = "\<lparr>Repository.Name = ''repo2'', FullName = ''owner/repo2'', URL = [], DefaultBranch = ''main'', Branches = []\<rparr>"
  let ?err = "RepositoryError ''repo1'' (InvalidRepositoryNameFormat ''repo1'')"
  let ?s0 = "\<lparr>capacity = 2, toSend = [?bad, ?good], reposChan = [], reposChanClosed = False,
       workers = [Receiving, Receiving], resultsChan = [], resultsChanClosed = False,
       errorsChan = [], errorsChanClosed = False, resultsChanNil = False, errorsChanNil = False,
       processedRepos = [], errors = [], logOutput = []\<rparr>"
  let ?s1 = "?s0\<lparr>toSend := [?good], reposChan := [?bad]\<rparr>"
  let ?s2 = "?s1\<lparr>toSend := [], reposChan := [?bad, ?good]\<rparr>"
  let ?s3 = "?s2\<lparr>reposChanClosed := True\<rparr>"
  let ?s4 = "?s3\<lparr>reposChan := [?good], workers := [Processing ?bad, Receiving]\<rparr>"
  let ?s5 = "?s4\<lparr>reposChan := [], workers := [Processing ?bad, Processing ?good]\<rparr>"
  let ?s6 = "?s5\<lparr>workers := [Processing ?bad, SendingResult ?good], logOutput := [ProcessingRepository ''owner/repo2'']\<rparr>"
  let ?s7 = "?s6\<lparr>workers := [SendingError ?err, SendingResult ?good], logOutput := [ProcessingRepository ''owner/repo2'', ProcessingRepository ''repo1'']\<rparr>"
  let ?s8 = "?s7\<lparr>workers := [SendingError ?err, Receiving], resultsChan := [?good]\<rparr>"
  let ?s9 = "?s8\<lparr>workers := [Receiving, Receiving], errorsChan := [?err]\<rparr>"
  let ?s10 = "?s9\<lparr>resultsChan := [], processedRepos := [?good]\<rparr>"
  let ?s11 = "?s10\<lparr>workers := [Finished, Receiving]\<rparr>"
  let ?s12 = "?s11\<lparr>workers := [Finished, Finished]\<rparr>"
  let ?s13 = "?s12\<lparr>resultsChanClosed := True\<rparr>"
  let ?s14 = "?s13\<lparr>errorsChanClosed := True\<rparr>"
  let ?s15 = "?s14\<lparr>errorsChan := [], errors := [?err]\<rparr>"
  let ?s16 = "?s15\<lparr>resultsChanNil := True\<rparr>"
  let ?s17 = "?s16\<lparr>errorsChanNil := True\<rparr>"
  have r0: "(coordinatorStep ?api 0 1)\<^sup>*\<^sup>* (startCoordinator [?bad, ?good]) ?s0"
    by (simp add: startCoordinator_def maxWorkers_def eval_nat_numeral)
  have r1: "(coordinatorStep ?api 0 1)\<^sup>*\<^sup>* (startCoordinator [?bad, ?good]) ?s1"
    by (rule rtranclp.rtrancl_into_rtrancl [OF r0], rule coordinatorStep_to, rule coordinatorStep.send [where repo = ?bad and rest = "[?good]"])
       (simp_all add: coordinator_eval)
  have r2: "(coordinatorStep ?api 0 1)\<^sup>*\<^sup>* (startCoordinator [?bad, ?good]) ?s2"
    by (rule rtranclp.rtrancl_into_rtrancl [OF r1], rule coordinatorStep_to, rule coordinatorStep.send [where repo = ?good and rest = "[]"])
       (simp_all add: coordinator_eval)
  have r3: "(coordinatorStep ?api 0 1)\<^sup>*\<^sup>* (startCoordinator [?bad, ?good]) ?s3"
    by (rule rtranclp.rtrancl_into_rtrancl [OF r2], rule coordinatorStep_to, rule coordinatorStep.closeRepos)
       (simp_all add: coordinator_eval)
  have r4: "(coordinatorStep ?api 0 1)\<^sup>*\<^sup>* (startCoordinator [?bad, ?good]) ?s4"
    by (rule rtranclp.rtrancl_into_rtrancl [OF r3], rule coordinatorStep_to, rule coordinatorStep.receive [where i = 0 and repo = ?bad and rest = "[?good]"])
       (simp_all add: coordinator_eval)
  have r5: "(coordinatorStep ?api 0 1)\<^sup>*\<^sup>* (startCoordinator [?bad, ?good]) ?s5"
    by (rule rtranclp.rtrancl_into_rtrancl [OF r4], rule coordinatorStep_to, rule coordinatorStep.receive [where i = 1 and repo = ?good and rest = "[]"])
       (simp_all add: coordinator_eval)
  have r6: "(coordinatorStep ?api 0 1)\<^sup>*\<^sup>* (startCoordinator [?bad, ?good]) ?s6"
    by (rule rtranclp.rtrancl_into_rtrancl [OF r5], rule coordinatorStep_to, rule coordinatorStep.processed [where i = 1 and repo = ?good and processedRepo = ?good and entries = "[ProcessingRepository ''owner/repo2'']"])
       (simp_all add: coordinator_eval)
  have r7: "(coordinatorStep ?api 0 1)\<^sup>*\<^sup>* (startCoordinator [?bad, ?good]) ?s7"
    by (rule rtranclp.rtrancl_into_rtrancl [OF r6], rule coordinatorStep_to, rule coordinatorStep.failed [where i = 0 and repo = ?bad and err = "InvalidRepositoryNameFormat ''repo1''" and entries = "[ProcessingRepository ''repo1'']"])
       (simp_all add: coordinator_eval)
  have r8: "(coordinatorStep ?api 0 1)\<^sup>*\<^sup>* (startCoordinator [?bad, ?good]) ?s8"
    by (rule rtranclp.rtrancl_into_rtrancl [OF r7], rule coordinatorStep_to, rule coordinatorStep.sendResult [where i = 1 and processedRepo = ?good])
       (simp_all add: coordinator_eval)
  have r9: "(coordinatorStep ?api 0 1)\<^sup>*\<^sup>* (startCoordinator [?bad, ?good]) ?s9"
    by (rule rtranclp.rtrancl_into_rtrancl [OF r8], rule coordinatorStep_to, rule coordinatorStep.sendError [where i = 0 and err = ?err])
       (simp_all add: coordinator_eval)
  have r10: "(coordinatorStep ?api 0 1)\<^sup>*\<^sup>* (startCoordinator [?bad, ?good]) ?s10"
    by (rule rtranclp.rtrancl_into_rtrancl [OF r9], rule coordinatorStep_to, rule coordinatorStep.collectResult [where repo = ?good and rest = "[]"])
       (simp_all add: coordinator_eval)
  have r11: "(coordinatorStep ?api 0 1)\<^sup>*\<^sup>* (startCoordinator [?bad, ?good]) ?s11"
    by (rule rtranclp.rtrancl_into_rtrancl [OF r10], rule coordinatorStep_to, rule coordinatorStep.workerDone [where i = 0])
       (simp_all add: coordinator_eval)
  have r12: "(coordinatorStep ?api 0 1)\<^sup>*\<^sup>* (startCoordinator [?bad, ?good]) ?s12"
    by (rule rtranclp.rtrancl_into_rtrancl [OF r11], rule coordinatorStep_to, rule coordinatorStep.workerDone [where i = 1])
       (simp_all add: coordinator_eval)
  have r13: "(coordinatorStep ?api 0 1)\<^sup>*\<^sup>* (startCoordinator [?bad, ?good]) ?s13"
    by (rule rtranclp.rtrancl_into_rtrancl [OF r12], rule coordinatorStep_to, rule coordinatorStep.closeResults)
       (simp_all add: coordinator_eval)
  have r14: "(coordinatorStep ?api 0 1)\<^sup>*\<^sup>* (startCoordinator [?bad, ?good]) ?s14"
    by (rule rtranclp.rtrancl_into_rtrancl [OF r13], rule coordinatorStep_to, rule coordinatorStep.closeErrors)
       (simp_all add: coordinator_eval)
  have r15: "(coordinatorStep ?api 0 1)\<^sup>*\<^sup>* (startCoordinator [?bad, ?good]) ?s15"
    by (rule rtranclp.rtrancl_into_rtrancl [OF r14], rule coordinatorStep_to, rule coordinatorStep.collectError [where err = ?err and rest = "[]"])
       (simp_all add: coordinator_eval)
  have r16: "(coordinatorStep ?api 0 1)\<^sup>*\<^sup>* (startCoordinator [?bad, ?good]) ?s16"
    by (rule rtranclp.rtrancl_into_rtrancl [OF r15], rule coordinatorStep_to, rule coordinatorStep.resultsDrained)
       (simp_all add: coordinator_eval)
  have r17: "(coordinatorStep ?api 0 1)\<^sup>*\<^sup>* (startCoordinator [?bad, ?good]) ?s17"
    by (rule rtranclp.rtrancl_into_rtrancl [OF r16], rule coordinatorStep_to, rule coordinatorStep.errorsDrained)
       (simp_all add: coordinator_eval)
  have fin: "?s17 =
     \<lparr>capacity = 2, toSend = [], reposChan = [], reposChanClosed = True,
       workers = [Finished, Finished], resultsChan = [], resultsChanClosed = True,
       errorsChan = [], errorsChanClosed = True, resultsChanNil = True, errorsChanNil = True,
       processedRepos = [\<lparr>Repository.Name = ''repo2'', FullName = ''owner/repo2'', URL = [], DefaultBranch = ''main'', Branches = []\<rparr>], errors = [RepositoryError ''repo1'' (InvalidRepositoryNameFormat ''repo1'')], logOutput = [ProcessingRepository ''owner/repo2'', ProcessingRepository ''repo1'']\<rparr>"
    by simp
  from r17 have run: "(coordinatorStep ?api 0 1)\<^sup>*\<^sup>* (startCoordinator [?bad, ?good])
     \<lparr>capacity = 2, toSend = [], reposChan = [], reposChanClosed = True,
       workers = [Finished, Finished], resultsChan = [], resultsChanClosed = True,
       errorsChan = [], errorsChanClosed = True, resultsChanNil = True, errorsChanNil = True,
       processedRepos = [\<lparr>Repository.Name = ''repo2'', FullName = ''owner/repo2'', URL = [], DefaultBranch = ''main'', Branches = []\<rparr>], errors = [RepositoryError ''repo1'' (InvalidRepositoryNameFormat ''repo1'')], logOutput = [ProcessingRepository ''owner/repo2'', ProcessingRepository ''repo1'']\<rparr>"
    by (simp only: fin)
  have isdone: "collectionDone
     \<lparr>capacity = 2, toSend = [], reposChan = [], reposChanClosed = True,
       workers = [Finished, Finished], resultsChan = [], resultsChanClosed = True,
       errorsChan = [], errorsChanClosed = True, resultsChanNil = True, errorsChanNil = True,
       processedRepos = [\<lparr>Repository.Name = ''repo2'', FullName = ''owner/repo2'', URL = [], DefaultBranch = ''main'', Branches = []\<rparr>], errors = [RepositoryError ''repo1'' (InvalidRepositoryNameFormat ''repo1'')], logOutput = [ProcessingRepository ''owner/repo2'', ProcessingRepository ''repo1'']\<rparr>"
    by (simp add: collectionDone_def)
  have p1: "processRepository ?api ?bad 0 1 =
     Some (Inl (InvalidRepositoryNameFormat ''repo1''), [ProcessingRepository ''repo1''])"
    by (simp add: coordinator_eval)
  have p2: "processRepository ?api ?good 0 1 = Some (Inr ?good, [ProcessingRepository ''owner/repo2''])"
    by (simp add: coordinator_eval)
  have ret: "\<forall>repo \<in> set [?bad, ?good]. processRepository ?api repo 0 1 \<noteq> None"
    using p1 p2 by simp
  have count: "length (processedRepos ?s17) + length (errors ?s17) = length [?bad, ?good]"
    using coordinator_collects_every_repository [OF r17, THEN conjunct1] ret
    by (simp add: collectionDone_def)
  from count isdone run p1 p2 show ?thesis by simp
qed

end
